theory Spec2Isabelle
  imports Complex_Main "HOL-Library.Word"
begin

section \<open>Python values and errors\<close>

text \<open>
  The values an attribute of an emitter object can hold: a Python integer (the literal
  \<open>0\<close> of the constructors), a float, or a numpy array given by its row of
  coordinates.
\<close>

datatype pyval = PyInt int | PyFloat real | PyArray "real list"

text \<open>
  \<open>TypeError\<close>: a call with the wrong number of arguments.
  \<open>ValueError\<close>: numpy cannot broadcast two arrays of different shapes.
  \<open>OverflowError\<close>: a Python integer is too large to be converted to a float.
\<close>

datatype error = TypeError | ValueError | OverflowError

section \<open>Binary64 arithmetic\<close>

text \<open>
  Python floats and numpy's \<open>float64\<close> are IEEE 754 binary64 numbers, and every
  operation of the script returns the exact result rounded to the nearest binary64
  number, ties to the even significand. A finite binary64 number is modelled by the real
  number it stands for. The model has the 53-bit significand and the gradual underflow
  of binary64 (no spacing below \<open>2 powi (- 1074)\<close>); it has no largest exponent, so
  it covers every computation that does not overflow to infinity, and it has neither
  infinities nor NaN.
\<close>

text \<open>Rounding a real number to the nearest integer, ties to even.\<close>

definition rne :: "real \<Rightarrow> int" where
  "rne y = (let f = \<lfloor>y\<rfloor>; r = y - of_int f in
     if r < 1/2 then f else if 1/2 < r then f + 1 else if even f then f else f + 1)"

text \<open>
  The exponent of the spacing of the binary64 numbers around \<open>x\<close>: 52 binary places
  below the leading bit of \<open>x\<close>, and never below \<open>- 1074\<close> (the subnormal range).
\<close>

definition expo :: "real \<Rightarrow> int" where
  "expo x = max (\<lfloor>log 2 \<bar>x\<bar>\<rfloor> - 52) (- 1074)"

text \<open>Rounding to binary64.\<close>

definition fl :: "real \<Rightarrow> real" where
  "fl x = of_int (rne (x / 2 powi expo x)) * 2 powi expo x"

text \<open>The real numbers that are binary64 numbers.\<close>

definition is_float :: "real \<Rightarrow> bool" where
  "is_float t = (\<exists>m e. t = of_int m * 2 powi e \<and> \<bar>m\<bar> < 2 ^ 53 \<and> - 1074 \<le> e)"

text \<open>
  Rounding errors: \<open>near k x y\<close> says that \<open>x\<close> is the number \<open>y\<close> up to \<open>k\<close>
  relative errors of half a unit in the last place, and \<open>normal_or_zero x\<close> that a
  number that is not negative is zero or outside the subnormal range (where the relative
  error of rounding is not bounded).
\<close>

definition near :: "nat \<Rightarrow> real \<Rightarrow> real \<Rightarrow> bool" where
  "near k x y \<longleftrightarrow> (1 - 1 / 2 ^ 53) ^ k * y \<le> x \<and> x \<le> (1 + 1 / 2 ^ 53) ^ k * y"

definition normal_or_zero :: "real \<Rightarrow> bool" where
  "normal_or_zero x \<longleftrightarrow> x = 0 \<or> 2 powi (- 1022) \<le> x"

text \<open>
  The type of the binary64 numbers: \<open>val\<close> is the real number a binary64 number stands
  for, \<open>rnd\<close> rounds a real number to binary64.
\<close>

typedef f64 = "{x :: real. is_float x}"
  morphisms val Abs_f64
proof
  have "(0::real) = of_int 0 * 2 powi 0 \<and> \<bar>0::int\<bar> < 2 ^ 53 \<and> - 1074 \<le> (0::int)" by simp
  then show "0 \<in> {x :: real. is_float x}" unfolding is_float_def by blast
qed

definition rnd :: "real \<Rightarrow> f64" where
  "rnd x = Abs_f64 (fl x)"

definition fadd :: "f64 \<Rightarrow> f64 \<Rightarrow> f64" where
  "fadd x y = rnd (val x + val y)"

definition fsub :: "f64 \<Rightarrow> f64 \<Rightarrow> f64" where
  "fsub x y = rnd (val x - val y)"

definition fmul :: "f64 \<Rightarrow> f64 \<Rightarrow> f64" where
  "fmul x y = rnd (val x * val y)"

text \<open>The only divisor of the script is the nonzero constant \<open>c\<close>.\<close>

definition fdiv :: "f64 \<Rightarrow> f64 \<Rightarrow> f64" where
  "fdiv x y = rnd (val x / val y)"

text \<open>The script takes square roots of sums of squares only, which are not negative.\<close>

definition fsqrt :: "f64 \<Rightarrow> f64" where
  "fsqrt x = rnd (sqrt (val x))"

text \<open>Fused multiply-add: \<open>x * y + z\<close> with one rounding.\<close>

definition fma :: "f64 \<Rightarrow> f64 \<Rightarrow> f64 \<Rightarrow> f64" where
  "fma x y z = rnd (val x * val y + val z)"

section \<open>Python numbers and numpy arrays\<close>

text \<open>
  A Python number is an integer of any size or a float. Where an integer meets a float
  in an operation, the integer is converted to a float first: it is rounded to binary64,
  and the conversion raises OverflowError when the rounded value does not fit binary64
  (from \<open>2 ^ 1024\<close> on).
\<close>

datatype number = IntNum int | FloatNum f64

definition int_to_float :: "int \<Rightarrow> error + f64" where
  "int_to_float n =
     (if 2 ^ 1024 \<le> \<bar>fl (of_int n)\<bar> then Inl OverflowError else Inr (rnd (of_int n)))"

text \<open>The number a Python number stands for.\<close>

fun num_val :: "number \<Rightarrow> real" where
  "num_val (IntNum n) = of_int n"
| "num_val (FloatNum x) = val x"

fun to_float64 :: "number \<Rightarrow> error + f64" where
  "to_float64 (IntNum n) = int_to_float n"
| "to_float64 (FloatNum x) = Inr x"

text \<open>
  Python's \<open>x + y\<close> on numbers: exact on two integers, the binary64 sum otherwise.
\<close>

fun py_add :: "number \<Rightarrow> number \<Rightarrow> error + number" where
  "py_add (IntNum a) (IntNum b) = Inr (IntNum (a + b))"
| "py_add x y =
     (case to_float64 x of
        Inl e \<Rightarrow> Inl e
      | Inr a \<Rightarrow> (case to_float64 y of Inl e \<Rightarrow> Inl e | Inr b \<Rightarrow> Inr (FloatNum (fadd a b))))"

text \<open>
  A position is a numpy array of shape \<open>(1, n)\<close>, modelled by its element type and its
  row of coordinates. \<open>np.array\<close> of Python integers has the element type \<open>int64\<close>,
  whose arithmetic wraps around; an array of floats has the element type \<open>float64\<close>.
\<close>

datatype ndarray = Int64Array "64 word list" | Float64Array "f64 list"

text \<open>The number of coordinates of a row: 3 for a position in space.\<close>

fun ncols :: "ndarray \<Rightarrow> nat" where
  "ncols (Int64Array ws) = length ws"
| "ncols (Float64Array xs) = length xs"

text \<open>
  An elementwise operation on two rows: numpy broadcasts a row of one element against
  a longer row, and raises ValueError for two rows of different lengths otherwise.
\<close>

definition broadcast :: "('a \<Rightarrow> 'a \<Rightarrow> 'b) \<Rightarrow> 'a list \<Rightarrow> 'a list \<Rightarrow> error + 'b list" where
  "broadcast f x y =
     (if length x = length y then Inr (map2 f x y)
      else if length x = 1 then Inr (map (\<lambda>b. f (hd x) b) y)
      else if length y = 1 then Inr (map (\<lambda>a. f a (hd y)) x)
      else Inl ValueError)"

text \<open>\<open>astype(float)\<close>: an \<open>int64\<close> is rounded to binary64.\<close>

definition int64_to_float :: "64 word \<Rightarrow> f64" where
  "int64_to_float w = rnd (of_int (sint w))"

fun astype_float :: "ndarray \<Rightarrow> f64 list" where
  "astype_float (Int64Array ws) = map int64_to_float ws"
| "astype_float (Float64Array xs) = xs"

text \<open>
  \<open>x - y\<close> on two arrays: in \<open>int64\<close>, with wrap-around, when both hold integers;
  in binary64, after the conversion of the integers, otherwise.
\<close>

fun sub_arr :: "ndarray \<Rightarrow> ndarray \<Rightarrow> error + ndarray" where
  "sub_arr (Int64Array x) (Int64Array y) =
     (case broadcast (\<lambda>a b. a - b) x y of
        Inl e \<Rightarrow> Inl e
      | Inr d \<Rightarrow> Inr (Int64Array d))"
| "sub_arr x y =
     (case broadcast fsub (astype_float x) (astype_float y) of
        Inl e \<Rightarrow> Inl e
      | Inr d \<Rightarrow> Inr (Float64Array d))"

text \<open>
  \<open>v.dot(v)\<close> on \<open>float64\<close> rows is the dot product of the BLAS library numpy is built
  on, which is not part of the repository. It accumulates the products from left to
  right, starting from 0; whether it rounds each product before adding it or uses a
  fused multiply-add depends on the build, and is the parameter \<open>fused\<close> of the model.
\<close>

definition dot :: "bool \<Rightarrow> f64 list \<Rightarrow> f64 list \<Rightarrow> f64" where
  "dot fused xs ys =
     foldl (\<lambda>acc (x, y). if fused then fma x y acc else fadd acc (fmul x y))
       (rnd 0) (zip xs ys)"

text \<open>
  \<open>np.linalg.norm(a)\<close> with the default \<open>ord\<close> converts an integer array to
  \<open>float64\<close>, flattens it to a row \<open>v\<close> and returns \<open>sqrt(v.dot(v))\<close>.
\<close>

definition linalg_norm :: "bool \<Rightarrow> ndarray \<Rightarrow> f64" where
  "linalg_norm fused a = fsqrt (dot fused (astype_float a) (astype_float a))"

section \<open>exp/exp00\_tdoa.py\<close>

text \<open>\<open>c = 299e6\<close>\<close>

definition c :: f64 where
  "c = rnd 299000000"

definition calc_range :: "bool \<Rightarrow> ndarray \<Rightarrow> ndarray \<Rightarrow> error + f64" where
  "calc_range fused x y =
     (case sub_arr x y of Inl e \<Rightarrow> Inl e | Inr d \<Rightarrow> Inr (linalg_norm fused d))"

text \<open>
  \<open>tot + r / c\<close>: \<open>r / c\<close> is a \<open>float64\<close>, so \<open>tot\<close> is converted to a float when it
  is an integer, and the sum is the binary64 one.
\<close>

definition calc_toa :: "bool \<Rightarrow> number \<Rightarrow> ndarray \<Rightarrow> ndarray \<Rightarrow> error + f64" where
  "calc_toa fused tot transmit_pos receive_pos =
     (case calc_range fused transmit_pos receive_pos of
        Inl e \<Rightarrow> Inl e
      | Inr r \<Rightarrow>
          (case to_float64 tot of
             Inl e \<Rightarrow> Inl e
           | Inr t \<Rightarrow> Inr (fadd t (fdiv r c))))"

text \<open>The local variables of \<open>main\<close> when it reaches its \<open>return\<close>.\<close>

record main_locals =
  loc_transmitter :: ndarray
  loc_rec1 :: ndarray
  loc_rec2 :: ndarray
  loc_toa1 :: f64
  loc_toa2 :: f64
  loc_tdoa :: f64

definition main_body :: "bool \<Rightarrow> error + main_locals" where
  "main_body fused =
     (let transmitter = Int64Array [1, 1, 0];
          rec1 = Int64Array [50, 50, 25];
          rec2 = Int64Array [3, 100, 75]
      in case calc_toa fused (IntNum 0) transmitter rec1 of
           Inl e \<Rightarrow> Inl e
         | Inr toa1 \<Rightarrow>
             (case calc_toa fused (IntNum 0) transmitter rec2 of
                Inl e \<Rightarrow> Inl e
              | Inr toa2 \<Rightarrow>
                  (let tdoa = fsub toa2 toa1
                   in Inr \<lparr>loc_transmitter = transmitter, loc_rec1 = rec1,
                            loc_rec2 = rec2, loc_toa1 = toa1, loc_toa2 = toa2,
                            loc_tdoa = tdoa\<rparr>)))"

text \<open>
  \<open>main()\<close> takes the lines printed so far and returns them with its return value:
  it computes its local variables, prints nothing and returns 0.
\<close>

definition main :: "bool \<Rightarrow> string list \<Rightarrow> error + (string list \<times> int)" where
  "main fused out =
     (case main_body fused of Inl e \<Rightarrow> Inl e | Inr locals \<Rightarrow> Inr (out, 0))"

section \<open>sim/emitters.py\<close>

datatype pyclass = Emitter | StatEmitter

record emitter_obj =
  cls :: pyclass
  pos :: pyval
  vel :: pyval

text \<open>
  \<open>emitter()\<close>: \<open>__init__(self)\<close> takes no argument besides \<open>self\<close> and sets
  \<open>pos\<close> and \<open>vel\<close> to the integer 0. A call with arguments raises TypeError.
\<close>

fun emitter :: "pyval list \<Rightarrow> error + emitter_obj" where
  "emitter [] = Inr \<lparr>cls = Emitter, pos = PyInt 0, vel = PyInt 0\<rparr>"
| "emitter (a # args) = Inl TypeError"

text \<open>
  \<open>stat_emitter(pos)\<close>: \<open>__init__(self, pos)\<close> takes exactly one argument, stores it
  in \<open>pos\<close> and sets \<open>vel\<close> to the integer 0. It does not call the constructor of the
  base class.
\<close>

fun stat_emitter :: "pyval list \<Rightarrow> error + emitter_obj" where
  "stat_emitter [p] = Inr \<lparr>cls = StatEmitter, pos = p, vel = PyInt 0\<rparr>"
| "stat_emitter args = Inl TypeError"

text \<open>
  The two classes define no method besides their constructors, so the operations of the
  repository on emitter objects are the two constructor calls. A heap is the list of the
  objects allocated so far (an object's address is its index); a constructor call
  appends the new object and touches no other.
\<close>

type_synonym heap = "emitter_obj list"

datatype stmt = New_emitter "pyval list" | New_stat_emitter "pyval list"

fun exec :: "stmt \<Rightarrow> heap \<Rightarrow> error + heap" where
  "exec (New_emitter args) h =
     (case emitter args of Inl e \<Rightarrow> Inl e | Inr ob \<Rightarrow> Inr (h @ [ob]))"
| "exec (New_stat_emitter args) h =
     (case stat_emitter args of Inl e \<Rightarrow> Inl e | Inr ob \<Rightarrow> Inr (h @ [ob]))"

fun run :: "stmt list \<Rightarrow> heap \<Rightarrow> error + heap" where
  "run [] h = Inr h"
| "run (s # ss) h = (case exec s h of Inl e \<Rightarrow> Inl e | Inr h' \<Rightarrow> run ss h')"

section \<open>Rounding to binary64\<close>

lemma floor_log2_bounds:
  assumes "x \<noteq> 0"
  shows "2 powi \<lfloor>log 2 \<bar>x\<bar>\<rfloor> \<le> \<bar>x\<bar>" and "\<bar>x\<bar> < 2 powi (\<lfloor>log 2 \<bar>x\<bar>\<rfloor> + 1)"
proof -
  have pos: "0 < \<bar>x\<bar>" using assms by simp
  have "(2::real) powr \<lfloor>log 2 \<bar>x\<bar>\<rfloor> \<le> \<bar>x\<bar> \<and> \<bar>x\<bar> < 2 powr (\<lfloor>log 2 \<bar>x\<bar>\<rfloor> + 1)"
    using floor_log_eq_powr_iff [OF pos, of 2 "\<lfloor>log 2 \<bar>x\<bar>\<rfloor>"] by simp
  then show "2 powi \<lfloor>log 2 \<bar>x\<bar>\<rfloor> \<le> \<bar>x\<bar>" and "\<bar>x\<bar> < 2 powi (\<lfloor>log 2 \<bar>x\<bar>\<rfloor> + 1)"
    using powr_real_of_int' [of 2 "\<lfloor>log 2 \<bar>x\<bar>\<rfloor>"] powr_real_of_int' [of 2 "\<lfloor>log 2 \<bar>x\<bar>\<rfloor> + 1"]
    by simp_all
qed

lemma floor_log2_eqI:
  assumes "2 powi k \<le> \<bar>x\<bar>" and "\<bar>x\<bar> < 2 powi (k + 1)"
  shows "\<lfloor>log 2 \<bar>x\<bar>\<rfloor> = k"
proof -
  have "0 < (2::real) powi k" by simp
  with assms(1) have pos: "0 < \<bar>x\<bar>" by linarith
  show ?thesis
    using floor_log_eq_powr_iff [OF pos, of 2 k] assms
      powr_real_of_int' [of 2 k] powr_real_of_int' [of 2 "k + 1"]
    by simp
qed

lemma expo_ge: "- 1074 \<le> expo x"
  by (simp add: expo_def)

lemma expo_upper:
  assumes "x \<noteq> 0" shows "\<bar>x\<bar> < 2 powi (expo x + 53)"
proof -
  have "\<lfloor>log 2 \<bar>x\<bar>\<rfloor> + 1 \<le> expo x + 53" by (simp add: expo_def)
  then have "(2::real) powi (\<lfloor>log 2 \<bar>x\<bar>\<rfloor> + 1) \<le> 2 powi (expo x + 53)"
    by (intro power_int_increasing) simp_all
  with floor_log2_bounds(2) [OF assms] show ?thesis by linarith
qed

lemma expo_lower:
  assumes "x \<noteq> 0" and "- 1074 < expo x" shows "2 powi (expo x + 52) \<le> \<bar>x\<bar>"
proof -
  from assms(2) have "expo x = \<lfloor>log 2 \<bar>x\<bar>\<rfloor> - 52" by (simp add: expo_def max_def split: if_splits)
  then have "expo x + 52 = \<lfloor>log 2 \<bar>x\<bar>\<rfloor>" by simp
  with floor_log2_bounds(1) [OF assms(1)] show ?thesis by simp
qed

lemma expo_eqI:
  assumes "2 powi (k + 52) \<le> \<bar>x\<bar>" and "\<bar>x\<bar> < 2 powi (k + 53)" and "- 1074 \<le> k"
  shows "expo x = k"
proof -
  have "\<lfloor>log 2 \<bar>x\<bar>\<rfloor> = k + 52"
    using floor_log2_eqI [of "k + 52" x] assms by (simp add: add.commute add.left_commute)
  with assms(3) show ?thesis by (simp add: expo_def)
qed

lemma expo_mono:
  assumes "x \<noteq> 0" and "\<bar>x\<bar> \<le> \<bar>y\<bar>" shows "expo x \<le> expo y"
proof -
  have "0 < \<bar>x\<bar>" using assms by simp
  then have "log 2 \<bar>x\<bar> \<le> log 2 \<bar>y\<bar>" using assms(2) by simp
  then have "\<lfloor>log 2 \<bar>x\<bar>\<rfloor> \<le> \<lfloor>log 2 \<bar>y\<bar>\<rfloor>" by (rule floor_mono)
  then show ?thesis by (simp add: expo_def)
qed

lemma expo_minus [simp]: "expo (- x) = expo x"
  by (simp add: expo_def)

lemma rne_of_int [simp]: "rne (of_int n) = n"
  by (simp add: rne_def)

lemma rne_0 [simp]: "rne 0 = 0"
  using rne_of_int [of 0] by simp

lemma rne_ge: "of_int n \<le> y \<Longrightarrow> n \<le> rne y"
proof -
  assume "of_int n \<le> y"
  then have "n \<le> \<lfloor>y\<rfloor>" by (simp add: le_floor_iff)
  then show ?thesis by (simp add: rne_def Let_def)
qed

lemma rne_le: "y \<le> of_int n \<Longrightarrow> rne y \<le> n"
proof -
  assume a: "y \<le> of_int n"
  show ?thesis
  proof (cases "y = of_int n")
    case True
    then show ?thesis by simp
  next
    case False
    with a have "y < of_int n" by simp
    then have "\<lfloor>y\<rfloor> < n" by (simp add: floor_less_iff)
    then show ?thesis by (simp add: rne_def Let_def)
  qed
qed

lemma rne_minus: "rne (- y) = - rne y"
proof (cases "y = of_int \<lfloor>y\<rfloor>")
  case True
  then have "- y = of_int (- \<lfloor>y\<rfloor>)" by simp
  then have "rne (- y) = - \<lfloor>y\<rfloor>" using rne_of_int [of "- \<lfloor>y\<rfloor>"] by simp
  moreover have "rne y = \<lfloor>y\<rfloor>" using True rne_of_int [of "\<lfloor>y\<rfloor>"] by simp
  ultimately show ?thesis by simp
next
  case False
  then have lt: "of_int \<lfloor>y\<rfloor> < y" using of_int_floor_le [of y] by linarith
  have up: "y < of_int \<lfloor>y\<rfloor> + 1" by linarith
  have fm: "\<lfloor>- y\<rfloor> = - \<lfloor>y\<rfloor> - 1"
  proof (rule floor_unique)
    show "of_int (- \<lfloor>y\<rfloor> - 1) \<le> - y" by simp linarith
    show "- y < of_int (- \<lfloor>y\<rfloor> - 1) + 1" using lt by simp
  qed
  have ev: "even (- \<lfloor>y\<rfloor> - 1) = odd \<lfloor>y\<rfloor>" by simp
  show ?thesis
    unfolding rne_def Let_def fm ev
    by (auto simp: algebra_simps)
qed

lemma fl_0 [simp]: "fl 0 = 0"
  by (simp add: fl_def)

lemma fl_minus: "fl (- x) = - fl x"
  by (simp add: fl_def rne_minus)

lemma fl_nonneg: "0 \<le> x \<Longrightarrow> 0 \<le> fl x"
proof -
  assume "0 \<le> x"
  then have "of_int 0 \<le> x / 2 powi expo x" by simp
  then have "0 \<le> rne (x / 2 powi expo x)" by (rule rne_ge)
  then show ?thesis by (simp add: fl_def)
qed

lemma pow2_less_cancel: "(2::real) powi a < 2 powi b \<Longrightarrow> a < b"
proof (rule ccontr)
  assume lt: "(2::real) powi a < 2 powi b" and "\<not> a < b"
  then have "b \<le> a" by simp
  then have "(2::real) powi b \<le> 2 powi a" by (intro power_int_increasing) simp_all
  with lt show False by simp
qed

lemma pow2_split: "e \<le> k \<Longrightarrow> (2::real) powi k = of_int (2 ^ nat (k - e)) * 2 powi e"
proof -
  assume "e \<le> k"
  then have "(2::real) powi (k - e) = 2 ^ nat (k - e)" by (simp add: power_int_nonneg_exp)
  moreover have "(2::real) powi k = 2 powi (k - e) * 2 powi e"
    by (simp flip: power_int_add)
  ultimately show ?thesis by simp
qed

lemma float_expo_le:
  assumes "t = of_int m * 2 powi e" and "\<bar>m\<bar> < 2 ^ 53" and "- 1074 \<le> e" and "t \<noteq> 0"
  shows "expo t \<le> e"
proof (cases "- 1074 < expo t")
  case False
  with assms(3) show ?thesis by simp
next
  case True
  have "\<bar>t\<bar> = of_int \<bar>m\<bar> * 2 powi e" by (simp add: assms(1) abs_mult)
  also have "\<dots> < 2 ^ 53 * 2 powi e"
  proof -
    have "real_of_int \<bar>m\<bar> < real_of_int (2 ^ 53)" using assms(2) by (simp only: of_int_less_iff)
    then show ?thesis by simp
  qed
  also have "\<dots> = 2 powi (e + 53)" by (simp add: power_int_add)
  finally have "\<bar>t\<bar> < 2 powi (e + 53)" .
  with expo_lower [OF assms(4) True] have "(2::real) powi (expo t + 52) < 2 powi (e + 53)"
    by linarith
  then have "expo t + 52 < e + 53" by (rule pow2_less_cancel)
  then show ?thesis by simp
qed

lemma float_on_grid:
  assumes "is_float t" and "t \<noteq> 0"
  shows "\<exists>n. t = of_int n * 2 powi expo t"
proof -
  from assms(1) obtain m e where t: "t = of_int m * 2 powi e" and m: "\<bar>m\<bar> < 2 ^ 53"
    and e: "- 1074 \<le> e" by (auto simp: is_float_def)
  have le: "expo t \<le> e" by (rule float_expo_le [OF t m e assms(2)])
  have "t = of_int (m * 2 ^ nat (e - expo t)) * 2 powi expo t"
    using pow2_split [OF le] t by simp
  then show ?thesis ..
qed

lemma fl_float_id:
  assumes "is_float t" shows "fl t = t"
proof (cases "t = 0")
  case True
  then show ?thesis by simp
next
  case False
  from float_on_grid [OF assms False] obtain n where n: "t = of_int n * 2 powi expo t" ..
  have "t / 2 powi expo t = of_int n"
  proof -
    have "t / 2 powi expo t = of_int n * 2 powi expo t / 2 powi expo t" using n by simp
    then show ?thesis by simp
  qed
  then have "rne (t / 2 powi expo t) = n" by simp
  then show ?thesis using n by (simp add: fl_def)
qed

lemma is_float_minus: "is_float t \<Longrightarrow> is_float (- t)"
proof -
  assume "is_float t"
  then obtain m e where "t = of_int m * 2 powi e" "\<bar>m\<bar> < 2 ^ 53" "- 1074 \<le> e"
    by (auto simp: is_float_def)
  then have "- t = of_int (- m) * 2 powi e \<and> \<bar>- m\<bar> < 2 ^ 53 \<and> - 1074 \<le> e" by simp
  then show ?thesis unfolding is_float_def by blast
qed

lemma fl_ge_grid:
  assumes "of_int n * 2 powi expo x \<le> x"
  shows "of_int n * 2 powi expo x \<le> fl x"
proof -
  have p: "0 < (2::real) powi expo x" by simp
  from assms have "of_int n \<le> x / 2 powi expo x"
    using p by (simp add: pos_le_divide_eq)
  then have "n \<le> rne (x / 2 powi expo x)" by (rule rne_ge)
  then have "real_of_int n \<le> of_int (rne (x / 2 powi expo x))" by (simp only: of_int_le_iff)
  then show ?thesis unfolding fl_def using p by (simp only: mult_le_cancel_right_pos)
qed

lemma fl_ge:
  assumes ft: "is_float t" and le: "t \<le> x"
  shows "t \<le> fl x"
proof -
  consider "t \<le> 0" "0 \<le> x" | "0 < t" | "x < 0" by linarith
  then show ?thesis
  proof cases
    case 1
    then show ?thesis using fl_nonneg [of x] by linarith
  next
    case 2
    then have t0: "t \<noteq> 0" and x0: "x \<noteq> 0" using le by auto
    from float_on_grid [OF ft t0] obtain n where n: "t = of_int n * 2 powi expo t" ..
    have "\<bar>t\<bar> \<le> \<bar>x\<bar>" using 2 le by simp
    then have el: "expo t \<le> expo x" by (rule expo_mono [OF t0])
    show ?thesis
    proof (cases "expo t = expo x")
      case True
      then show ?thesis using fl_ge_grid [of n x] n le by simp
    next
      case False
      with el have lt: "expo t < expo x" by simp
      then have "- 1074 < expo x" using expo_ge [of t] by linarith
      from expo_lower [OF x0 this] have "2 powi (expo x + 52) \<le> x" using 2 le by simp
      moreover have g: "of_int (2 ^ 52) * 2 powi expo x = (2::real) powi (expo x + 52)"
        by (simp add: power_int_add)
      ultimately have "of_int (2 ^ 52) * 2 powi expo x \<le> x" by simp
      then have "of_int (2 ^ 52) * 2 powi expo x \<le> fl x" by (rule fl_ge_grid)
      then have a: "(2::real) powi (expo x + 52) \<le> fl x" using g by simp
      have "expo t + 53 \<le> expo x + 52" using lt by simp
      then have b: "(2::real) powi (expo t + 53) \<le> 2 powi (expo x + 52)"
        by (intro power_int_increasing) simp_all
      have "t < 2 powi (expo t + 53)" using expo_upper [OF t0] 2 by simp
      with a b show ?thesis by linarith
    qed
  next
    case 3
    then have t0: "t \<noteq> 0" and x0: "x \<noteq> 0" using le by auto
    from float_on_grid [OF ft t0] obtain n where n: "t = of_int n * 2 powi expo t" ..
    have "\<bar>x\<bar> \<le> \<bar>t\<bar>" using 3 le by simp
    then have el: "expo x \<le> expo t" by (rule expo_mono [OF x0])
    show ?thesis
    proof (cases "expo t = expo x")
      case True
      then show ?thesis using fl_ge_grid [of n x] n le by simp
    next
      case False
      with el have lt: "expo x < expo t" by simp
      then have "- 1074 < expo t" using expo_ge [of x] by linarith
      from expo_lower [OF t0 this] have a: "t \<le> - (2 powi (expo t + 52))" using 3 le by simp
      have "expo x + 53 \<le> expo t + 52" using lt by simp
      then have b: "(2::real) powi (expo x + 53) \<le> 2 powi (expo t + 52)"
        by (intro power_int_increasing) simp_all
      have g: "of_int (- (2 ^ 53)) * 2 powi expo x = - ((2::real) powi (expo x + 53))"
        by (simp add: power_int_add)
      have "- (2 powi (expo x + 53)) \<le> x" using expo_upper [OF x0] 3 by simp
      then have "of_int (- (2 ^ 53)) * 2 powi expo x \<le> x" using g by simp
      then have "of_int (- (2 ^ 53)) * 2 powi expo x \<le> fl x" by (rule fl_ge_grid)
      then have "- ((2::real) powi (expo x + 53)) \<le> fl x" using g by simp
      with a b show ?thesis by linarith
    qed
  qed
qed

lemma fl_le:
  assumes "is_float t" and "x \<le> t"
  shows "fl x \<le> t"
proof -
  have "- t \<le> fl (- x)" using assms by (intro fl_ge is_float_minus) simp_all
  then show ?thesis by (simp add: fl_minus)
qed

lemma is_float_0 [simp]: "is_float 0"
proof -
  have "(0::real) = of_int 0 * 2 powi 0 \<and> \<bar>0::int\<bar> < 2 ^ 53 \<and> - 1074 \<le> (0::int)" by simp
  then show ?thesis unfolding is_float_def by blast
qed

lemma is_float_pow2: "- 1074 \<le> k \<Longrightarrow> is_float (2 powi k)"
proof -
  assume "- 1074 \<le> k"
  then have "(2::real) powi k = of_int 1 * 2 powi k \<and> \<bar>1::int\<bar> < 2 ^ 53 \<and> - 1074 \<le> k" by simp
  then show ?thesis unfolding is_float_def by blast
qed

lemma is_float_fl: "is_float (fl x)"
proof (cases "x = 0")
  case True
  then show ?thesis by simp
next
  case False
  define t :: real where "t = 2 powi (expo x + 53)"
  have e: "- 1074 \<le> expo x + 53" using expo_ge [of x] by simp
  have ft: "is_float t" unfolding t_def by (rule is_float_pow2 [OF e])
  have ub: "\<bar>x\<bar> < t" unfolding t_def by (rule expo_upper [OF False])
  have hi: "fl x \<le> t" using ub by (intro fl_le ft) simp
  have lo: "- t \<le> fl x" using ub by (intro fl_ge is_float_minus ft) simp
  define m where "m = rne (x / 2 powi expo x)"
  have fm: "fl x = of_int m * 2 powi expo x" by (simp add: fl_def m_def)
  have tt: "t = of_int (2 ^ 53) * 2 powi expo x" by (simp add: t_def power_int_add)
  have "real_of_int m \<le> of_int (2 ^ 53)"
    using hi unfolding fm tt by (simp only: mult_le_cancel_right_pos zero_less_power_int zero_less_numeral)
  then have mh: "m \<le> 2 ^ 53" by (simp only: of_int_le_iff)
  have "real_of_int (- (2 ^ 53)) * 2 powi expo x \<le> real_of_int m * 2 powi expo x"
    using lo unfolding fm tt by simp
  then have "real_of_int (- (2 ^ 53)) \<le> real_of_int m"
    by (simp only: mult_le_cancel_right_pos zero_less_power_int zero_less_numeral)
  then have ml: "- (2 ^ 53) \<le> m" by (simp only: of_int_le_iff)
  consider "\<bar>m\<bar> < 2 ^ 53" | "m = 2 ^ 53" | "m = - (2 ^ 53)" using mh ml by linarith
  then show ?thesis
  proof cases
    case 1
    then have "fl x = of_int m * 2 powi expo x \<and> \<bar>m\<bar> < 2 ^ 53 \<and> - 1074 \<le> expo x"
      using fm expo_ge [of x] by simp
    then show ?thesis unfolding is_float_def by blast
  next
    case 2
    then have "fl x = t" using fm tt by simp
    then show ?thesis using ft by simp
  next
    case 3
    then have "fl x = - t" using fm tt by simp
    then show ?thesis using is_float_minus [OF ft] by simp
  qed
qed

lemma fl_idem [simp]: "fl (fl x) = fl x"
  by (rule fl_float_id [OF is_float_fl])

section \<open>Binary64 numbers given by numerals\<close>

lemma is_float_dyadic:
  assumes "\<bar>m\<bar> < 2 ^ 53" and "n \<le> 1074"
  shows "is_float (of_int m / 2 ^ n)"
proof -
  have "real_of_int m / 2 ^ n = of_int m * 2 powi (- int n)"
    by (simp add: power_int_minus divide_inverse)
  moreover have "- 1074 \<le> - int n" using assms(2) by simp
  ultimately show ?thesis unfolding is_float_def using assms(1) by blast
qed

lemma is_float_of_int: "\<bar>m\<bar> < 2 ^ 53 \<Longrightarrow> is_float (of_int m)"
  using is_float_dyadic [of m 0] by simp

lemma fl_of_int: "\<bar>m\<bar> < 2 ^ 53 \<Longrightarrow> fl (of_int m) = of_int m"
  by (rule fl_float_id [OF is_float_of_int])

lemma fl_between:
  assumes "is_float lo" and "is_float hi" and "lo \<le> x" and "x \<le> hi"
  shows "lo \<le> fl x \<and> fl x \<le> hi"
  using assms by (simp add: fl_ge fl_le)

lemma fl_tie: "fl 9007199254740993 = 9007199254740992"
proof -
  have e: "expo 9007199254740993 = 1" by (rule expo_eqI) simp_all
  have "rne (9007199254740993 / 2) = 4503599627370496" by (simp add: rne_def)
  then show ?thesis by (simp add: fl_def e)
qed

lemma is_float_c_sq: "is_float 89401000000000000"
proof -
  have "(89401000000000000::real) = of_int 21826416015625 * 2 powi 12 \<and>
    \<bar>21826416015625::int\<bar> < 2 ^ 53 \<and> - 1074 \<le> (12::int)" by simp
  then show ?thesis unfolding is_float_def by blast
qed

lemma is_float_2_53: "is_float 9007199254740992"
proof -
  have "(9007199254740992::real) = of_int 1 * 2 powi 53 \<and>
    \<bar>1::int\<bar> < 2 ^ 53 \<and> - 1074 \<le> (53::int)" by simp
  then show ?thesis unfolding is_float_def by blast
qed

section \<open>Binary64 numbers as a type, and rounding errors\<close>

lemma is_float_val: "is_float (val a)"
  using val [of a] by simp

lemma val_rnd [simp]: "val (rnd x) = fl x"
  by (simp add: rnd_def Abs_f64_inverse is_float_fl)

lemma fl_val [simp]: "fl (val a) = val a"
  by (rule fl_float_id [OF is_float_val])

lemma rnd_val [simp]: "rnd (val a) = a"
  by (simp add: rnd_def val_inverse)

lemma f64_eqI: "val a = val b \<Longrightarrow> a = b"
  by (simp add: val_inject)

lemma rne_err: "\<bar>of_int (rne y) - y\<bar> \<le> 1 / 2"
proof -
  have "of_int \<lfloor>y\<rfloor> \<le> y" "y < of_int \<lfloor>y\<rfloor> + 1" by linarith+
  then show ?thesis by (auto simp: rne_def Let_def)
qed

lemma fl_err_ulp: "\<bar>fl x - x\<bar> \<le> 2 powi expo x / 2"
proof -
  define p :: real where "p = 2 powi expo x"
  have p: "0 < p" by (simp add: p_def)
  have "fl x - x = (of_int (rne (x / p)) - x / p) * p"
    using p by (simp add: fl_def p_def algebra_simps)
  then have "\<bar>fl x - x\<bar> = \<bar>of_int (rne (x / p)) - x / p\<bar> * p"
    using p by (simp add: abs_mult)
  also have "\<dots> \<le> 1 / 2 * p"
    using rne_err [of "x / p"] p by (intro mult_right_mono) simp_all
  finally show ?thesis by (simp add: p_def)
qed

lemma expo_lower_normal:
  assumes "2 powi (- 1022) \<le> \<bar>x\<bar>"
  shows "2 powi (expo x + 52) \<le> \<bar>x\<bar>"
proof (cases "- 1074 < expo x")
  case True
  have "x \<noteq> 0" using assms by auto
  then show ?thesis by (rule expo_lower [OF _ True])
next
  case False
  then have "expo x = - 1074" using expo_ge [of x] by linarith
  then show ?thesis using assms by simp
qed

lemma fl_rel:
  assumes "x = 0 \<or> 2 powi (- 1022) \<le> \<bar>x\<bar>"
  shows "\<bar>fl x - x\<bar> \<le> \<bar>x\<bar> / 2 ^ 53"
proof (cases "x = 0")
  case True
  then show ?thesis by simp
next
  case False
  with assms have n: "2 powi (- 1022) \<le> \<bar>x\<bar>" by simp
  have "(2::real) powi (expo x + 52) = 2 powi expo x * 2 ^ 52"
    by (simp add: power_int_add)
  with expo_lower_normal [OF n] have "2 powi expo x * 2 ^ 52 \<le> \<bar>x\<bar>" by simp
  then have "2 powi expo x / 2 \<le> \<bar>x\<bar> / 2 ^ 53" by simp
  with fl_err_ulp [of x] show ?thesis by linarith
qed

lemma float_multiple:
  assumes "is_float a"
  shows "\<exists>n. a = of_int n * 2 powi (- 1074)"
proof -
  from assms obtain m e where a: "a = of_int m * 2 powi e" and e: "- 1074 \<le> e"
    by (auto simp: is_float_def)
  have "a = of_int (m * 2 ^ nat (e - (- 1074))) * 2 powi (- 1074)"
    using pow2_split [OF e] a by simp
  then show ?thesis ..
qed

lemma fl_grid_exact:
  assumes "x = of_int n * 2 powi (- 1074)" and "\<bar>x\<bar> < 2 powi (- 1022)"
  shows "fl x = x"
proof -
  have "\<bar>x\<bar> = of_int \<bar>n\<bar> * 2 powi (- 1074)" by (simp add: assms(1) abs_mult)
  moreover have "(2::real) powi (- 1022) = 2 ^ 52 * 2 powi (- 1074)" by simp
  ultimately have "real_of_int \<bar>n\<bar> * 2 powi (- 1074) < 2 ^ 52 * 2 powi (- 1074)"
    using assms(2) by simp
  then have "real_of_int \<bar>n\<bar> < 2 ^ 52"
    by (simp only: mult_less_cancel_right_pos zero_less_power_int zero_less_numeral)
  then have "real_of_int \<bar>n\<bar> < real_of_int (2 ^ 53)" by simp
  then have "\<bar>n\<bar> < 2 ^ 53" by (simp only: of_int_less_iff)
  then have "is_float x" unfolding is_float_def using assms(1) by (intro exI [of _ n] exI [of _ "- 1074"]) simp
  then show ?thesis by (rule fl_float_id)
qed

lemma fl_add_rel:
  assumes "is_float a" and "is_float b"
  shows "\<bar>fl (a + b) - (a + b)\<bar> \<le> \<bar>a + b\<bar> / 2 ^ 53"
proof (cases "\<bar>a + b\<bar> < 2 powi (- 1022)")
  case True
  from float_multiple [OF assms(1)] float_multiple [OF assms(2)]
  obtain n m where "a = of_int n * 2 powi (- 1074)" "b = of_int m * 2 powi (- 1074)" by blast
  then have "a + b = of_int (n + m) * 2 powi (- 1074)" by (simp add: algebra_simps)
  from fl_grid_exact [OF this True] show ?thesis by simp
next
  case False
  then show ?thesis by (intro fl_rel) simp
qed

lemma fl_sub_rel:
  assumes "is_float a" and "is_float b"
  shows "\<bar>fl (a - b) - (a - b)\<bar> \<le> \<bar>a - b\<bar> / 2 ^ 53"
  using fl_add_rel [OF assms(1) is_float_minus [OF assms(2)]] by simp

section \<open>Subtraction of arrays and the dot product\<close>

lemma val_fadd [simp]: "val (fadd a b) = fl (val a + val b)" by (simp add: fadd_def)
lemma val_fsub [simp]: "val (fsub a b) = fl (val a - val b)" by (simp add: fsub_def)
lemma val_fmul [simp]: "val (fmul a b) = fl (val a * val b)" by (simp add: fmul_def)
lemma val_fdiv [simp]: "val (fdiv a b) = fl (val a / val b)" by (simp add: fdiv_def)
lemma val_fsqrt [simp]: "val (fsqrt a) = fl (sqrt (val a))" by (simp add: fsqrt_def)
lemma val_fma [simp]: "val (fma a b z) = fl (val a * val b + val z)" by (simp add: fma_def)

lemma broadcast_flip: "broadcast (\<lambda>b a. g a b) y x = broadcast g x y"
proof -
  have "map2 (\<lambda>b a. g a b) y x = map2 g x y"
    by (induction x arbitrary: y) (auto simp: zip_Cons1 split: list.splits)
  then show ?thesis unfolding broadcast_def by auto
qed

lemma broadcast_map:
  "broadcast (\<lambda>a b. k (g a b)) x y =
     (case broadcast g x y of Inl e \<Rightarrow> Inl e | Inr d \<Rightarrow> Inr (map k d))"
  unfolding broadcast_def by (simp add: map_zip_map2 o_def split_def)

lemma sint_neg_cases: "sint (- w) = - sint w \<or> sint (- w) = sint (w :: 64 word)"
proof (cases "sint w = - (2 ^ 63)")
  case True
  then show ?thesis by (simp add: sint_word_minus)
next
  case False
  have "- (2 ^ 63) \<le> sint w" "sint w < 2 ^ 63"
    using sint_ge [of w] sint_lt [of w] by simp_all
  with False have "- (2 ^ 63) \<le> - sint w" "- sint w < 2 ^ 63" by linarith+
  then have "signed_take_bit 63 (- sint w) = - sint w"
    by (simp add: signed_take_bit_int_eq_self)
  then show ?thesis by (simp add: sint_word_minus)
qed

lemma int64_to_float_neg:
  "val (int64_to_float (- w)) = val (int64_to_float w) \<or>
   val (int64_to_float (- w)) = - val (int64_to_float w)"
proof -
  have "real_of_int (sint (- w)) = real_of_int (sint w) \<or>
        real_of_int (sint (- w)) = - real_of_int (sint w)"
    using sint_neg_cases [of w] by (auto simp del: of_int_sint)
  then have "fl (real_of_int (sint (- w))) = fl (real_of_int (sint w)) \<or>
        fl (real_of_int (sint (- w))) = - fl (real_of_int (sint w))"
    by (auto simp only: fl_minus)
  then show ?thesis by (simp only: int64_to_float_def val_rnd)
qed

lemma fsub_swap: "fsub b a = rnd (- val (fsub a b))"
proof (rule f64_eqI)
  have "fl (val b - val a) = fl (- (val a - val b))" by simp
  then show "val (fsub b a) = val (rnd (- val (fsub a b)))"
    by (simp add: fl_minus del: minus_diff_eq)
qed

lemma sub_arr_swap:
  "sub_arr y x =
     (case sub_arr x y of
        Inl e \<Rightarrow> Inl e
      | Inr d \<Rightarrow>
          (case d of
             Int64Array ws \<Rightarrow> Inr (Int64Array (map uminus ws))
           | Float64Array vs \<Rightarrow> Inr (Float64Array (map (\<lambda>v. rnd (- val v)) vs))))"
proof -
  have i: "broadcast (\<lambda>a b. a - b) v u =
      (case broadcast (\<lambda>a b. a - b) u v of Inl e \<Rightarrow> Inl e | Inr d \<Rightarrow> Inr (map uminus d))"
    for u v :: "64 word list"
    using broadcast_flip [of "\<lambda>a b. b - a" v u] broadcast_map [of uminus "\<lambda>a b. a - b" u v]
    by simp
  have f: "broadcast fsub v u =
      (case broadcast fsub u v of Inl e \<Rightarrow> Inl e | Inr d \<Rightarrow> Inr (map (\<lambda>v. rnd (- val v)) d))"
    for u v
  proof -
    have e: "(\<lambda>a b. fsub b a) = (\<lambda>a b. rnd (- val (fsub a b)))"
      by (intro ext) (rule fsub_swap)
    have "broadcast fsub v u = broadcast (\<lambda>a b. fsub b a) u v"
      using broadcast_flip [of "\<lambda>a b. fsub b a" v u] by simp
    also have "\<dots> = broadcast (\<lambda>a b. rnd (- val (fsub a b))) u v"
      by (simp only: e)
    also have "\<dots> = (case broadcast fsub u v of Inl e \<Rightarrow> Inl e
        | Inr d \<Rightarrow> Inr (map (\<lambda>v. rnd (- val v)) d))"
      by (rule broadcast_map [of "\<lambda>v. rnd (- val v)" fsub u v])
    finally show ?thesis .
  qed
  show ?thesis
  proof (cases x)
    case xi: (Int64Array xs)
    show ?thesis
    proof (cases y)
      case (Int64Array ys)
      then show ?thesis by (simp add: xi i [where u = xs and v = ys] split: sum.splits)
    next
      case (Float64Array ys)
      then show ?thesis
        by (simp add: xi f [where u = "map int64_to_float xs" and v = ys] split: sum.splits)
    qed
  next
    case xf: (Float64Array xs)
    show ?thesis
    proof (cases y)
      case (Int64Array ys)
      then show ?thesis
        by (simp add: xf f [where u = xs and v = "map int64_to_float ys"] split: sum.splits)
    next
      case (Float64Array ys)
      then show ?thesis by (simp add: xf f [where u = xs and v = ys] split: sum.splits)
    qed
  qed
qed

lemma dot_same_squares:
  assumes "list_all2 (\<lambda>u v. val v = val u \<or> val v = - val u) xs ys"
  shows "dot fused xs xs = dot fused ys ys"
proof -
  have "foldl (\<lambda>acc (x, y). if fused then fma x y acc else fadd acc (fmul x y)) a (zip xs xs)
      = foldl (\<lambda>acc (x, y). if fused then fma x y acc else fadd acc (fmul x y)) a (zip ys ys)"
    for a
    using assms
  proof (induction arbitrary: a rule: list_all2_induct)
    case Nil
    then show ?case by simp
  next
    case (Cons u xs v ys)
    from Cons.hyps(1) have sq: "val v * val v = val u * val u" by auto
    have "fma v v a = fma u u a" "fadd a (fmul v v) = fadd a (fmul u u)"
      by (rule f64_eqI, simp add: sq)+
    then show ?case using Cons.IH by simp
  qed
  then show ?thesis by (simp add: dot_def)
qed

lemma linalg_norm_neg:
  "linalg_norm fused (Int64Array (map uminus ws)) = linalg_norm fused (Int64Array ws)"
  "linalg_norm fused (Float64Array (map (\<lambda>v. rnd (- val v)) vs)) = linalg_norm fused (Float64Array vs)"
proof -
  have "list_all2 (\<lambda>u v. val v = val u \<or> val v = - val u)
      (map int64_to_float ws) (map int64_to_float (map uminus ws))"
    using int64_to_float_neg by (simp add: list_all2_map1 list_all2_map2 list_all2_same)
  from dot_same_squares [OF this]
  show "linalg_norm fused (Int64Array (map uminus ws)) = linalg_norm fused (Int64Array ws)"
    by (simp add: linalg_norm_def)
  have "list_all2 (\<lambda>u v. val v = val u \<or> val v = - val u) vs (map (\<lambda>v. rnd (- val v)) vs)"
    by (simp add: list_all2_map2 list_all2_same fl_minus)
  from dot_same_squares [OF this]
  show "linalg_norm fused (Float64Array (map (\<lambda>v. rnd (- val v)) vs)) = linalg_norm fused (Float64Array vs)"
    by (simp add: linalg_norm_def)
qed

lemma calc_range_commute_n: "calc_range fused A B = calc_range fused B A"
  unfolding calc_range_def sub_arr_swap [of A B]
  by (simp add: linalg_norm_neg split: sum.splits ndarray.splits)

lemma dot_zeros:
  assumes "\<forall>x \<in> set v. val x = 0"
  shows "dot fused v v = rnd 0"
proof -
  let ?f = "\<lambda>acc (x, y). if fused then fma x y acc else fadd acc (fmul x y)"
  have "foldl ?f (rnd 0) (zip v v) = rnd 0"
    using assms
  proof (induction v)
    case Nil
    then show ?case by simp
  next
    case (Cons x v)
    then have x: "val x = 0" by simp
    have "fma x x (rnd 0) = rnd 0" "fadd (rnd 0) (fmul x x) = rnd 0"
      by (rule f64_eqI, simp add: x)+
    then have "?f (rnd 0) (x, x) = rnd 0" by simp
    moreover have "foldl ?f (rnd 0) (zip v v) = rnd 0" using Cons by simp
    ultimately show ?case by (simp only: zip_Cons_Cons foldl_Cons)
  qed
  then show ?thesis by (simp only: dot_def)
qed

lemma linalg_norm_zeros:
  assumes "\<forall>x \<in> set (astype_float d). val x = 0"
  shows "linalg_norm fused d = rnd 0"
proof (rule f64_eqI)
  show "val (linalg_norm fused d) = val (rnd 0)"
    by (simp add: linalg_norm_def dot_zeros [OF assms])
qed

lemma calc_range_self_n: "calc_range fused P P = Inr (rnd 0)"
proof (cases P)
  case (Int64Array ws)
  have "\<forall>x \<in> set (astype_float (Int64Array (map2 (\<lambda>a b. a - b) ws ws))). val x = 0"
    by (auto simp: zip_same int64_to_float_def)
  from linalg_norm_zeros [OF this] show ?thesis
    by (simp add: Int64Array calc_range_def broadcast_def)
next
  case (Float64Array vs)
  have "\<forall>x \<in> set (astype_float (Float64Array (map2 fsub vs vs))). val x = 0"
    by (auto simp: zip_same)
  from linalg_norm_zeros [OF this] show ?thesis
    by (simp add: Float64Array calc_range_def broadcast_def)
qed

section \<open>Ranges and conversions\<close>

lemma rnd_eq_iff: "rnd x = rnd y \<longleftrightarrow> fl x = fl y"
  by (metis val_rnd f64_eqI)

lemma val_c [simp]: "val c = 299000000"
  using fl_of_int [of 299000000] by (simp add: c_def)

lemma sub_arr_ok:
  assumes "ncols A = ncols B"
  shows "\<exists>d. sub_arr A B = Inr d \<and> ncols d = ncols A"
  using assms by (cases A; cases B) (simp_all add: broadcast_def)

lemma calc_range_ok:
  assumes "ncols A = ncols B"
  shows "\<exists>r. calc_range fused A B = Inr r"
  using sub_arr_ok [OF assms] by (auto simp: calc_range_def)

lemma dot_step_nonneg:
  assumes "0 \<le> val acc"
  shows "0 \<le> val (if fused then fma x x acc else fadd acc (fmul x x))"
proof -
  have "0 \<le> fl (val x * val x)" by (intro fl_nonneg) simp
  then show ?thesis using assms by (auto intro!: fl_nonneg)
qed

lemma dot_self_nonneg: "0 \<le> val (dot fused v v)"
proof -
  let ?f = "\<lambda>acc (x, y). if fused then fma x y acc else fadd acc (fmul x y)"
  have "0 \<le> val (foldl ?f a (zip v v))" if "0 \<le> val a" for a
    using that
  proof (induction v arbitrary: a)
    case Nil
    then show ?case by simp
  next
    case (Cons x v)
    have "0 \<le> val (?f a (x, x))" using dot_step_nonneg [OF Cons.prems, of fused x] by simp
    from Cons.IH [OF this] show ?case by (simp only: zip_Cons_Cons foldl_Cons)
  qed
  then show ?thesis by (simp add: dot_def)
qed

lemma linalg_norm_nonneg: "0 \<le> val (linalg_norm fused d)"
  using dot_self_nonneg [of fused "astype_float d"]
  by (auto simp: linalg_norm_def intro!: fl_nonneg)

lemma calc_range_nonneg: "calc_range fused A B = Inr r \<Longrightarrow> 0 \<le> val r"
  by (auto simp: calc_range_def linalg_norm_nonneg split: sum.splits)

lemma delay_nonneg: "calc_range fused A B = Inr r \<Longrightarrow> 0 \<le> val (fdiv r c)"
  using calc_range_nonneg [of fused A B r] by (auto intro!: fl_nonneg)

lemma int_to_float_ok:
  assumes "\<bar>real_of_int n\<bar> \<le> 2 ^ 1023"
  shows "int_to_float n = Inr (rnd (of_int n))"
proof -
  have f: "is_float (2 powi 1023)" by (rule is_float_pow2) simp
  have "fl (of_int n) \<le> 2 powi 1023" using assms by (intro fl_le f) simp
  moreover have "- (2 powi 1023) \<le> fl (of_int n)"
    using assms by (intro fl_ge is_float_minus f) simp
  ultimately have "\<bar>fl (of_int n)\<bar> \<le> 2 ^ 1023" by simp
  moreover have "(2::real) ^ 1023 < 2 ^ 1024" by simp
  ultimately have "\<not> 2 ^ 1024 \<le> \<bar>fl (real_of_int n)\<bar>" by linarith
  then show ?thesis by (simp only: int_to_float_def if_False)
qed

lemma int_to_float_exact:
  assumes "is_float (of_int n)" and "\<bar>n\<bar> < 2 ^ 1024"
  shows "int_to_float n = Inr (rnd (of_int n))"
proof -
  have "real_of_int \<bar>n\<bar> < real_of_int (2 ^ 1024)" using assms(2) by (simp only: of_int_less_iff)
  then have "\<bar>real_of_int n\<bar> < 2 ^ 1024" by simp
  then have "\<not> 2 ^ 1024 \<le> \<bar>fl (real_of_int n)\<bar>"
    using fl_float_id [OF assms(1)] by simp
  then show ?thesis by (simp only: int_to_float_def if_False)
qed

section \<open>The scenario of main\<close>

lemma dot3_exact:
  assumes "is_float (val x * val x)" and "is_float (val y * val y)"
    and "is_float (val z * val z)" and "is_float (val x * val x + val y * val y)"
    and "is_float (val x * val x + val y * val y + val z * val z)"
  shows "val (dot fused [x, y, z] [x, y, z]) = val x * val x + val y * val y + val z * val z"
  using assms by (simp add: dot_def fl_float_id add.commute)

lemma calc_range_int3:
  "calc_range fused (Int64Array [a1, a2, a3]) (Int64Array [b1, b2, b3]) =
     Inr (linalg_norm fused (Int64Array [a1 - b1, a2 - b2, a3 - b3]))"
  by (simp add: calc_range_def broadcast_def)

lemma calc_range_float3:
  "calc_range fused (Float64Array [a1, a2, a3]) (Float64Array [b1, b2, b3]) =
     Inr (linalg_norm fused (Float64Array [fsub a1 b1, fsub a2 b2, fsub a3 b3]))"
  by (simp add: calc_range_def broadcast_def)

lemma val_int64_small:
  assumes "\<bar>sint w\<bar> < 2 ^ 53"
  shows "val (int64_to_float w) = of_int (sint w)"
  using fl_of_int [OF assms] by (simp only: int64_to_float_def val_rnd)

lemma is_float_int: "\<bar>real_of_int m\<bar> < 2 ^ 53 \<Longrightarrow> is_float (of_int m)"
proof -
  assume "\<bar>real_of_int m\<bar> < 2 ^ 53"
  then have "real_of_int \<bar>m\<bar> < real_of_int (2 ^ 53)" by simp
  then have "\<bar>m\<bar> < 2 ^ 53" by (simp only: of_int_less_iff)
  then show ?thesis by (rule is_float_of_int)
qed

lemma range1: "calc_range fused (Int64Array [1, 1, 0]) (Int64Array [50, 50, 25]) = Inr (rnd (sqrt 5427))"
proof -
  have v: "val (int64_to_float (- 49)) = - 49" "val (int64_to_float (- 25)) = - 25"
    using val_int64_small [of "- 49"] val_int64_small [of "- 25"] by simp_all
  have f: "is_float 2401" "is_float 625" "is_float 4802" "is_float 5427"
    using is_float_int [of 2401] is_float_int [of 625] is_float_int [of 4802]
      is_float_int [of 5427] by simp_all
  have "val (dot fused [int64_to_float (- 49), int64_to_float (- 49), int64_to_float (- 25)]
      [int64_to_float (- 49), int64_to_float (- 49), int64_to_float (- 25)]) = 5427"
    using dot3_exact [of "int64_to_float (- 49)" "int64_to_float (- 49)" "int64_to_float (- 25)" fused]
    by (simp add: v f)
  then show ?thesis
    by (simp add: calc_range_int3 linalg_norm_def fsqrt_def)
qed

lemma range2: "calc_range fused (Int64Array [1, 1, 0]) (Int64Array [3, 100, 75]) = Inr (rnd (sqrt 15430))"
proof -
  have v: "val (int64_to_float (- 2)) = - 2" "val (int64_to_float (- 99)) = - 99"
    "val (int64_to_float (- 75)) = - 75"
    using val_int64_small [of "- 2"] val_int64_small [of "- 99"] val_int64_small [of "- 75"]
    by simp_all
  have f: "is_float 4" "is_float 9801" "is_float 5625" "is_float 9805" "is_float 15430"
    using is_float_int [of 4] is_float_int [of 9801] is_float_int [of 5625]
      is_float_int [of 9805] is_float_int [of 15430] by simp_all
  have "val (dot fused [int64_to_float (- 2), int64_to_float (- 99), int64_to_float (- 75)]
      [int64_to_float (- 2), int64_to_float (- 99), int64_to_float (- 75)]) = 15430"
    using dot3_exact [of "int64_to_float (- 2)" "int64_to_float (- 99)" "int64_to_float (- 75)" fused]
    by (simp add: v f)
  then show ?thesis
    by (simp add: calc_range_int3 linalg_norm_def fsqrt_def)
qed

lemma calc_toa_int0:
  assumes "calc_range fused A B = Inr r"
  shows "calc_toa fused (IntNum 0) A B = Inr (rnd (val r / 299000000))"
proof -
  have "int_to_float 0 = Inr (rnd 0)" using int_to_float_ok [of 0] by simp
  moreover have "fadd (rnd 0) (fdiv r c) = rnd (val r / 299000000)"
    by (rule f64_eqI) simp
  ultimately show ?thesis by (simp add: calc_toa_def assms)
qed

lemma main_body_value:
  "main_body fused = Inr \<lparr>loc_transmitter = Int64Array [1, 1, 0],
     loc_rec1 = Int64Array [50, 50, 25], loc_rec2 = Int64Array [3, 100, 75],
     loc_toa1 = rnd (fl (sqrt 5427) / 299000000),
     loc_toa2 = rnd (fl (sqrt 15430) / 299000000),
     loc_tdoa = rnd (fl (fl (sqrt 15430) / 299000000) - fl (fl (sqrt 5427) / 299000000))\<rparr>"
  by (simp add: main_body_def calc_toa_int0 [OF range1] calc_toa_int0 [OF range2] fsub_def)

section \<open>Properties of calc\_range, calc\_toa and main\<close>

lemma toa1_bounds:
  "284058939354 / 2 ^ 60 \<le> fl (fl (sqrt 5427) / 299000000) \<and>
   fl (fl (sqrt 5427) / 299000000) \<le> 284058943033 / 2 ^ 60"
proof -
  have f: "is_float (77246680 / 2 ^ 20)" "is_float (77246681 / 2 ^ 20)"
    "is_float (284058939354 / 2 ^ 60)" "is_float (284058943033 / 2 ^ 60)"
    using is_float_dyadic [of 77246680 20] is_float_dyadic [of 77246681 20]
      is_float_dyadic [of 284058939354 60] is_float_dyadic [of 284058943033 60]
    by simp_all
  have "77246680 / 2 ^ 20 \<le> sqrt 5427" by (rule real_le_rsqrt) (simp add: power_divide)
  moreover have "sqrt 5427 \<le> 77246681 / 2 ^ 20" by (rule real_le_lsqrt) (simp_all add: power_divide)
  ultimately have s: "77246680 / 2 ^ 20 \<le> fl (sqrt 5427) \<and> fl (sqrt 5427) \<le> 77246681 / 2 ^ 20"
    by (intro fl_between f)
  then have "284058939354 / 2 ^ 60 \<le> fl (sqrt 5427) / 299000000"
    and "fl (sqrt 5427) / 299000000 \<le> 284058943033 / 2 ^ 60"
    by simp_all
  then show ?thesis by (intro fl_between f)
qed

lemma toa2_bounds:
  "478973528310 / 2 ^ 60 \<le> fl (fl (sqrt 15430) / 299000000) \<and>
   fl (fl (sqrt 15430) / 299000000) \<le> 478973531988 / 2 ^ 60"
proof -
  have f: "is_float (130251542 / 2 ^ 20)" "is_float (130251543 / 2 ^ 20)"
    "is_float (478973528310 / 2 ^ 60)" "is_float (478973531988 / 2 ^ 60)"
    using is_float_dyadic [of 130251542 20] is_float_dyadic [of 130251543 20]
      is_float_dyadic [of 478973528310 60] is_float_dyadic [of 478973531988 60]
    by simp_all
  have "130251542 / 2 ^ 20 \<le> sqrt 15430" by (rule real_le_rsqrt) (simp add: power_divide)
  moreover have "sqrt 15430 \<le> 130251543 / 2 ^ 20" by (rule real_le_lsqrt) (simp_all add: power_divide)
  ultimately have s: "130251542 / 2 ^ 20 \<le> fl (sqrt 15430) \<and> fl (sqrt 15430) \<le> 130251543 / 2 ^ 20"
    by (intro fl_between f)
  then have "478973528310 / 2 ^ 60 \<le> fl (sqrt 15430) / 299000000"
    and "fl (sqrt 15430) / 299000000 \<le> 478973531988 / 2 ^ 60"
    by simp_all
  then show ?thesis by (intro fl_between f)
qed

lemma tdoa_bounds:
  "194914585277 / 2 ^ 60 \<le> fl (fl (fl (sqrt 15430) / 299000000) - fl (fl (sqrt 5427) / 299000000)) \<and>
   fl (fl (fl (sqrt 15430) / 299000000) - fl (fl (sqrt 5427) / 299000000)) \<le> 194914592634 / 2 ^ 60"
proof -
  have f: "is_float (194914585277 / 2 ^ 60)" "is_float (194914592634 / 2 ^ 60)"
    using is_float_dyadic [of 194914585277 60] is_float_dyadic [of 194914592634 60]
    by simp_all
  have "194914585277 / 2 ^ 60 \<le> fl (fl (sqrt 15430) / 299000000) - fl (fl (sqrt 5427) / 299000000)"
    and "fl (fl (sqrt 15430) / 299000000) - fl (fl (sqrt 5427) / 299000000) \<le> 194914592634 / 2 ^ 60"
    using toa1_bounds toa2_bounds by simp_all
  then show ?thesis by (intro fl_between f)
qed

text \<open>
  C3, as stated, fails: in the scenario of \<open>main\<close> the computed \<open>tdoa\<close> is more than
  \<open>1e-8\<close> away from \<open>1.5906e-7\<close>.
\<close>

theorem main_tdoa_counterexample:
  "\<not> isl (main_body True) \<and>
   1 / 10 ^ 8 < \<bar>val (loc_tdoa (projr (main_body True))) - 1.5906 / 10 ^ 7\<bar> \<and>
   \<not> isl (main_body False) \<and>
   1 / 10 ^ 8 < \<bar>val (loc_tdoa (projr (main_body False))) - 1.5906 / 10 ^ 7\<bar>"
  using tdoa_bounds by (simp add: main_body_value)

text \<open>
  C3, amended: in the scenario of \<open>main\<close> (transmitter \<open>(1, 1, 0)\<close>, receivers
  \<open>(50, 50, 25)\<close> and \<open>(3, 100, 75)\<close>, time of transmission 0) the computed
  \<open>tdoa = toa2 - toa1\<close> lies between \<open>1.69061e-7\<close> and \<open>1.69062e-7\<close>: it is
  approximately \<open>1.6906e-7\<close>.
\<close>

theorem main_tdoa_value:
  "\<exists>l. main_body fused = Inr l \<and> loc_transmitter l = Int64Array [1, 1, 0] \<and>
     loc_rec1 l = Int64Array [50, 50, 25] \<and> loc_rec2 l = Int64Array [3, 100, 75] \<and>
     loc_tdoa l = fsub (loc_toa2 l) (loc_toa1 l) \<and>
     1.69061 / 10 ^ 7 < val (loc_tdoa l) \<and> val (loc_tdoa l) < 1.69062 / 10 ^ 7"
  using tdoa_bounds by (simp add: main_body_value fsub_def)

text \<open>
  C6: \<open>main()\<close> returns 0 and leaves the output as it was, whatever had been printed
  before: the \<open>tdoa\<close> it computes is neither printed nor returned.
\<close>

theorem main_returns_zero: "main fused out = Inr (out, 0)"
  by (simp add: main_def main_body_value)

text \<open>
  C8: \<open>calc_range(A, B) = calc_range(B, A)\<close> for all arrays \<open>A\<close> and \<open>B\<close>, of integers
  or of floats (also when the shapes do not match: both calls raise the same error), and
  for either build of the dot product.
\<close>

theorem calc_range_commute: "calc_range fused A B = calc_range fused B A"
  by (rule calc_range_commute_n)

text \<open>C9: \<open>calc_range(P, P)\<close> returns 0 for every position \<open>P\<close>.\<close>

theorem calc_range_self: "calc_range fused P P = Inr (rnd 0) \<and> val (rnd 0) = 0"
  by (simp add: calc_range_self_n)

text \<open>
  C1: \<open>calc_toa(tot, transmitter, receiver)\<close> returns
  \<open>tot + calc_range(transmitter, receiver) / c\<close> with \<open>c = 299000000\<close>, as Python
  evaluates that expression: the quotient is rounded to binary64, an integer \<open>tot\<close> is
  converted to binary64 first (OverflowError when it is too large), and the sum is
  rounded to binary64. An error of \<open>calc_range\<close> is passed on, and there is none for two
  positions with the same number of coordinates.
\<close>

theorem calc_toa_formula:
  "calc_toa fused tot T R =
     (case calc_range fused T R of
        Inl e \<Rightarrow> Inl e
      | Inr r \<Rightarrow>
          (case tot of
             FloatNum t \<Rightarrow> Inr (rnd (val t + fl (val r / 299000000)))
           | IntNum n \<Rightarrow>
               if 2 ^ 1024 \<le> \<bar>fl (of_int n)\<bar> then Inl OverflowError
               else Inr (rnd (fl (of_int n) + fl (val r / 299000000))))) \<and>
   val c = 299000000 \<and>
   (ncols T = ncols R \<longrightarrow> (\<exists>r. calc_range fused T R = Inr r))"
  using calc_range_ok [of T R fused]
  by (simp add: calc_toa_def int_to_float_def fadd_def split: sum.splits number.splits)

theorem calc_toa_formula_witness:
  "ncols (Int64Array [1, 1, 0]) = ncols (Int64Array [50, 50, 25]) \<and>
   calc_range True (Int64Array [1, 1, 0]) (Int64Array [50, 50, 25]) = Inr (rnd (sqrt 5427)) \<and>
   calc_toa True (IntNum 0) (Int64Array [1, 1, 0]) (Int64Array [50, 50, 25])
     = Inr (rnd (fl 0 + fl (val (rnd (sqrt 5427)) / 299000000)))"
  using calc_toa_formula [of True "IntNum 0" "Int64Array [1, 1, 0]" "Int64Array [50, 50, 25]"]
  by (simp add: range1)

text \<open>
  C10, as stated, fails for an integer \<open>tot\<close> that binary64 does not represent: with
  \<open>tot = 2 ^ 53 + 1\<close> and the receiver at the transmitter's position, \<open>calc_toa\<close> returns
  \<open>2 ^ 53\<close>, which is less than \<open>tot\<close>.
\<close>

theorem toa_before_tot_counterexample:
  "calc_toa True (IntNum 9007199254740993) (Int64Array [1, 1, 0]) (Int64Array [1, 1, 0])
     = Inr (rnd 9007199254740992) \<and>
   calc_toa False (IntNum 9007199254740993) (Int64Array [1, 1, 0]) (Int64Array [1, 1, 0])
     = Inr (rnd 9007199254740992) \<and>
   val (rnd 9007199254740992) = 9007199254740992 \<and>
   val (rnd 9007199254740992) < num_val (IntNum 9007199254740993)"
proof -
  have b: "fl 9007199254740992 = 9007199254740992" by (rule fl_float_id [OF is_float_2_53])
  have i: "int_to_float 9007199254740993 = Inr (rnd 9007199254740993)"
    using int_to_float_ok [of 9007199254740993] by simp
  have "fadd (rnd 9007199254740993) (fdiv (rnd 0) c) = rnd 9007199254740992"
    by (rule f64_eqI) (simp add: fl_tie b)
  then show ?thesis
    by (simp add: calc_toa_def calc_range_self_n i b)
qed

text \<open>
  C10, amended: for two positions with the same number of coordinates \<open>calc_range\<close>
  returns a number that is not negative, and the time of arrival \<open>calc_toa\<close> returns is
  at least \<open>tot\<close> for every \<open>tot\<close> that is a float, or an integer that binary64
  represents exactly.
\<close>

theorem toa_not_before_tot:
  "ncols A = ncols B \<longrightarrow>
     (\<exists>r. calc_range fused A B = Inr r \<and> 0 \<le> val r \<and>
        (\<exists>toa. calc_toa fused (FloatNum t) A B = Inr toa \<and> val t \<le> val toa) \<and>
        (is_float (of_int n) \<and> \<bar>n\<bar> < 2 ^ 1024 \<longrightarrow>
           (\<exists>toa. calc_toa fused (IntNum n) A B = Inr toa \<and> of_int n \<le> val toa)))"
proof
  assume "ncols A = ncols B"
  from calc_range_ok [OF this] obtain r where r: "calc_range fused A B = Inr r" ..
  have r0: "0 \<le> val r" by (rule calc_range_nonneg [OF r])
  have q: "0 \<le> val (fdiv r c)" by (rule delay_nonneg [OF r])
  have a: "val t \<le> val (fadd t (fdiv r c))"
    using q by (simp only: val_fadd) (intro fl_ge is_float_val, simp)
  have b: "of_int n \<le> val (fadd (rnd (of_int n)) (fdiv r c))"
    if "is_float (of_int n)"
    using q that by (simp only: val_fadd val_rnd fl_float_id [OF that]) (intro fl_ge, simp_all)
  show "\<exists>r. calc_range fused A B = Inr r \<and> 0 \<le> val r \<and>
        (\<exists>toa. calc_toa fused (FloatNum t) A B = Inr toa \<and> val t \<le> val toa) \<and>
        (is_float (of_int n) \<and> \<bar>n\<bar> < 2 ^ 1024 \<longrightarrow>
           (\<exists>toa. calc_toa fused (IntNum n) A B = Inr toa \<and> of_int n \<le> val toa))"
    using r r0 a b by (auto simp: calc_toa_def int_to_float_exact)
qed

theorem toa_not_before_tot_witness:
  "ncols (Int64Array [1, 1, 0]) = ncols (Int64Array [50, 50, 25]) \<and>
   is_float (of_int 0) \<and> \<bar>0 :: int\<bar> < 2 ^ 1024 \<and>
   (\<exists>r. calc_range False (Int64Array [1, 1, 0]) (Int64Array [50, 50, 25]) = Inr r \<and> 0 \<le> val r \<and>
      (\<exists>toa. calc_toa False (FloatNum (rnd 0)) (Int64Array [1, 1, 0]) (Int64Array [50, 50, 25])
          = Inr toa \<and> val (rnd 0) \<le> val toa) \<and>
      (\<exists>toa. calc_toa False (IntNum 0) (Int64Array [1, 1, 0]) (Int64Array [50, 50, 25])
          = Inr toa \<and> of_int 0 \<le> val toa))"
  using toa_not_before_tot [of "Int64Array [1, 1, 0]" "Int64Array [50, 50, 25]" False "rnd 0" 0]
  by simp

section \<open>Shifting the time of transmission\<close>

lemma range_c:
  "calc_range fused (Int64Array [0, 0, 0]) (Int64Array [299000000, 0, 0]) = Inr (rnd 299000000)"
proof -
  have v: "val (int64_to_float (- 299000000)) = - 299000000" "val (int64_to_float 0) = 0"
    using val_int64_small [of "- 299000000"] val_int64_small [of 0] by simp_all
  have "sqrt ((299000000::real)\<^sup>2) = \<bar>299000000\<bar>" by (rule real_sqrt_abs)
  then have q: "sqrt 89401000000000000 = 299000000" by simp
  have "val (dot fused [int64_to_float (- 299000000), int64_to_float 0, int64_to_float 0]
      [int64_to_float (- 299000000), int64_to_float 0, int64_to_float 0]) = 89401000000000000"
    using dot3_exact [of "int64_to_float (- 299000000)" "int64_to_float 0" "int64_to_float 0" fused]
    by (simp add: v is_float_c_sq)
  then show ?thesis
    by (simp add: calc_range_int3 linalg_norm_def fsqrt_def q)
qed

lemma toa_c:
  "calc_toa fused (FloatNum t) (Int64Array [0, 0, 0]) (Int64Array [299000000, 0, 0])
     = Inr (rnd (val t + 1))"
proof -
  have e: "fl 299000000 = 299000000" "fl 1 = 1"
    using fl_of_int [of 299000000] fl_of_int [of 1] by simp_all
  have "fadd t (fdiv (rnd 299000000) c) = rnd (val t + 1)"
    by (rule f64_eqI) (simp add: e)
  then show ?thesis by (simp add: calc_toa_def range_c)
qed

text \<open>
  C5, as stated, fails: binary64 addition rounds. With the floats \<open>tot = 2 ^ 53\<close> and
  \<open>delta = - 1\<close>, a transmitter at the origin and a receiver at distance \<open>c\<close> (a delay
  of 1), \<open>tot + delta\<close> is \<open>2 ^ 53 - 1\<close> and \<open>calc_toa(tot + delta, \<dots>)\<close> is \<open>2 ^ 53\<close>;
  \<open>calc_toa(tot, \<dots>)\<close> is \<open>2 ^ 53\<close> too (the sum \<open>2 ^ 53 + 1\<close> is a tie and rounds to
  even), so \<open>calc_toa(tot, \<dots>) + delta\<close> is \<open>2 ^ 53 - 1\<close>.
\<close>

theorem calc_toa_shift_counterexample:
  "py_add (FloatNum (rnd 9007199254740992)) (FloatNum (rnd (- 1)))
     = Inr (FloatNum (rnd 9007199254740991)) \<and>
   calc_toa True (FloatNum (rnd 9007199254740991)) (Int64Array [0, 0, 0])
     (Int64Array [299000000, 0, 0]) = Inr (rnd 9007199254740992) \<and>
   calc_toa True (FloatNum (rnd 9007199254740992)) (Int64Array [0, 0, 0])
     (Int64Array [299000000, 0, 0]) = Inr (rnd 9007199254740992) \<and>
   calc_toa False (FloatNum (rnd 9007199254740991)) (Int64Array [0, 0, 0])
     (Int64Array [299000000, 0, 0]) = Inr (rnd 9007199254740992) \<and>
   calc_toa False (FloatNum (rnd 9007199254740992)) (Int64Array [0, 0, 0])
     (Int64Array [299000000, 0, 0]) = Inr (rnd 9007199254740992) \<and>
   rnd 9007199254740992 \<noteq> rnd 9007199254740991"
proof -
  have a: "fl 9007199254740991 = 9007199254740991" using fl_of_int [of 9007199254740991] by simp
  have b: "fl 9007199254740992 = 9007199254740992" by (rule fl_float_id [OF is_float_2_53])
  have m: "fl (- 1) = - 1" using fl_of_int [of "- 1"] by simp
  have "fadd (rnd 9007199254740992) (rnd (- 1)) = rnd 9007199254740991"
    by (rule f64_eqI) (simp add: a b m)
  then show ?thesis by (simp add: toa_c a b fl_tie rnd_eq_iff)
qed

lemma abs_near: "\<bar>x - y\<bar> \<le> e \<Longrightarrow> \<bar>y\<bar> \<le> m \<Longrightarrow> \<bar>x\<bar> \<le> m + e" for x y e m :: real
  by linarith

lemma abs_chain: "\<bar>x - y\<bar> \<le> e \<Longrightarrow> \<bar>y - z\<bar> \<le> d \<Longrightarrow> \<bar>x - z\<bar> \<le> e + d" for x y z e d :: real
  by linarith

lemma shift_bound_core:
  fixes tv dv q T D t' v w res :: real
  assumes q: "0 \<le> q"
    and e1: "\<bar>T - tv\<bar> \<le> \<bar>tv\<bar> / 2 ^ 53"
    and e2: "\<bar>D - dv\<bar> \<le> \<bar>dv\<bar> / 2 ^ 53"
    and e3: "\<bar>t' - (tv + dv)\<bar> \<le> 3 * (\<bar>tv\<bar> + \<bar>dv\<bar>) / 2 ^ 53"
    and e4: "\<bar>v - (t' + q)\<bar> \<le> \<bar>t' + q\<bar> / 2 ^ 53"
    and e5: "\<bar>w - (T + q)\<bar> \<le> \<bar>T + q\<bar> / 2 ^ 53"
    and e6: "\<bar>res - (w + D)\<bar> \<le> \<bar>w + D\<bar> / 2 ^ 53"
  shows "\<bar>v - res\<bar> \<le> (\<bar>tv\<bar> + \<bar>dv\<bar> + q) / 2 ^ 50"
proof -
  define a b where "a = \<bar>tv\<bar>" and "b = \<bar>dv\<bar>"
  have a0: "0 \<le> a" and b0: "0 \<le> b" by (simp_all add: a_def b_def)
  have s0: "\<bar>tv + dv\<bar> \<le> a + b" by (simp add: a_def b_def)
  have t1: "\<bar>t'\<bar> \<le> a + b + 3 * (a + b) / 2 ^ 53"
    using abs_near [OF _ s0, of t'] e3 by (simp add: a_def b_def)
  have t2: "\<bar>t' + q\<bar> \<le> a + b + 3 * (a + b) / 2 ^ 53 + q" using t1 q by linarith
  have v1: "\<bar>v - (t' + q)\<bar> \<le> (a + b + 3 * (a + b) / 2 ^ 53 + q) / 2 ^ 53"
    using e4 t2 by (simp add: divide_right_mono order_trans [OF e4])
  have v2: "\<bar>(t' + q) - (tv + dv + q)\<bar> \<le> 3 * (a + b) / 2 ^ 53"
    using e3 by (simp add: a_def b_def)
  have v3: "\<bar>v - (tv + dv + q)\<bar>
      \<le> (a + b + 3 * (a + b) / 2 ^ 53 + q) / 2 ^ 53 + 3 * (a + b) / 2 ^ 53"
    by (rule abs_chain [OF v1 v2])
  have T1: "\<bar>T\<bar> \<le> a + a / 2 ^ 53"
    using abs_near [of T tv "a / 2 ^ 53" a] e1 by (simp add: a_def)
  have T2: "\<bar>T + q\<bar> \<le> a + a / 2 ^ 53 + q" using T1 q by linarith
  have w1: "\<bar>w - (T + q)\<bar> \<le> (a + a / 2 ^ 53 + q) / 2 ^ 53"
    using e5 T2 by (simp add: divide_right_mono order_trans [OF e5])
  have w2: "\<bar>(T + q) - (tv + q)\<bar> \<le> a / 2 ^ 53" using e1 by (simp add: a_def)
  have w3: "\<bar>w - (tv + q)\<bar> \<le> (a + a / 2 ^ 53 + q) / 2 ^ 53 + a / 2 ^ 53"
    by (rule abs_chain [OF w1 w2])
  have tq: "\<bar>tv + q\<bar> \<le> a + q" using q by (simp add: a_def)
  have w4: "\<bar>w\<bar> \<le> a + q + ((a + a / 2 ^ 53 + q) / 2 ^ 53 + a / 2 ^ 53)"
    by (rule abs_near [OF w3 tq])
  have D1: "\<bar>D\<bar> \<le> b + b / 2 ^ 53"
    using abs_near [of D dv "b / 2 ^ 53" b] e2 by (simp add: b_def)
  have wD: "\<bar>w + D\<bar> \<le> a + q + ((a + a / 2 ^ 53 + q) / 2 ^ 53 + a / 2 ^ 53) + (b + b / 2 ^ 53)"
    using w4 D1 by linarith
  have r1: "\<bar>res - (w + D)\<bar>
      \<le> (a + q + ((a + a / 2 ^ 53 + q) / 2 ^ 53 + a / 2 ^ 53) + (b + b / 2 ^ 53)) / 2 ^ 53"
    using e6 wD by (simp add: divide_right_mono order_trans [OF e6])
  have r2: "\<bar>(w + D) - (tv + dv + q)\<bar>
      \<le> (a + a / 2 ^ 53 + q) / 2 ^ 53 + a / 2 ^ 53 + b / 2 ^ 53"
  proof -
    have "\<bar>D - dv\<bar> \<le> b / 2 ^ 53" using e2 by (simp add: b_def)
    with w3 show ?thesis by linarith
  qed
  have r3: "\<bar>res - (tv + dv + q)\<bar>
      \<le> (a + q + ((a + a / 2 ^ 53 + q) / 2 ^ 53 + a / 2 ^ 53) + (b + b / 2 ^ 53)) / 2 ^ 53
        + ((a + a / 2 ^ 53 + q) / 2 ^ 53 + a / 2 ^ 53 + b / 2 ^ 53)"
    by (rule abs_chain [OF r1 r2])
  have "\<bar>v - res\<bar> \<le> \<bar>v - (tv + dv + q)\<bar> + \<bar>res - (tv + dv + q)\<bar>" by linarith
  also have "\<dots> \<le> (a + b + 3 * (a + b) / 2 ^ 53 + q) / 2 ^ 53 + 3 * (a + b) / 2 ^ 53
      + ((a + q + ((a + a / 2 ^ 53 + q) / 2 ^ 53 + a / 2 ^ 53) + (b + b / 2 ^ 53)) / 2 ^ 53
        + ((a + a / 2 ^ 53 + q) / 2 ^ 53 + a / 2 ^ 53 + b / 2 ^ 53))"
    using v3 r3 by linarith
  also have "\<dots> \<le> (a + b + q) / 2 ^ 50"
    using a0 b0 q by (simp add: field_simps)
  finally show ?thesis by (simp add: a_def b_def)
qed

lemma sum_le_double: "x \<le> a + a \<Longrightarrow> y \<le> b + b \<Longrightarrow> z \<le> x + y \<Longrightarrow> z \<le> 2 * (a + b)"
  for x y z a b :: real
  by (simp add: algebra_simps)

lemma to_float64_ok:
  assumes "\<bar>num_val x\<bar> \<le> 2 ^ 1023"
  shows "to_float64 x = Inr (rnd (num_val x))"
  using assms by (cases x) (simp_all add: int_to_float_ok)

lemma conv_err: "\<bar>fl (num_val x) - num_val x\<bar> \<le> \<bar>num_val x\<bar> / 2 ^ 53"
proof (cases x)
  case (IntNum n)
  have "n = 0 \<or> 1 \<le> \<bar>n\<bar>" by linarith
  then have "real_of_int n = 0 \<or> 1 \<le> \<bar>real_of_int n\<bar>"
    by (metis of_int_0 of_int_1_le_iff of_int_abs)
  moreover have "(2::real) powi (- 1022) \<le> 1" by (simp add: power_int_minus field_simps)
  ultimately have "real_of_int n = 0 \<or> 2 powi (- 1022) \<le> \<bar>real_of_int n\<bar>" by linarith
  from fl_rel [OF this] show ?thesis by (simp add: IntNum)
next
  case (FloatNum a)
  then show ?thesis by simp
qed

lemma py_add_value:
  assumes t: "\<bar>num_val tot\<bar> \<le> 2 ^ 1000" and d: "\<bar>num_val delta\<bar> \<le> 2 ^ 1000"
  shows "\<exists>s. py_add tot delta = Inr s \<and> \<bar>num_val s\<bar> \<le> 2 ^ 1023 \<and>
    \<bar>fl (num_val s) - (num_val tot + num_val delta)\<bar>
      \<le> 3 * (\<bar>num_val tot\<bar> + \<bar>num_val delta\<bar>) / 2 ^ 53"
proof -
  define tv dv where "tv = num_val tot" and "dv = num_val delta"
  have big: "(2::real) ^ 1000 \<le> 2 ^ 1023" "(2::real) ^ 1000 + 2 ^ 1000 \<le> 2 ^ 1023" by simp_all
  have tb: "\<bar>tv\<bar> \<le> 2 ^ 1023" and db: "\<bar>dv\<bar> \<le> 2 ^ 1023"
    using t d big(1) unfolding tv_def dv_def by linarith+
  have sb: "\<bar>tv + dv\<bar> \<le> 2 ^ 1023" using t d big(2) unfolding tv_def dv_def by linarith
  show ?thesis
  proof (cases "(\<exists>n. tot = IntNum n) \<and> (\<exists>m. delta = IntNum m)")
    case True
    then obtain n m where nm: "tot = IntNum n" "delta = IntNum m" by blast
    have "\<bar>fl (num_val (IntNum (n + m))) - num_val (IntNum (n + m))\<bar>
        \<le> \<bar>num_val (IntNum (n + m))\<bar> / 2 ^ 53" by (rule conv_err)
    moreover have "\<bar>real_of_int n + real_of_int m\<bar> \<le> \<bar>real_of_int n\<bar> + \<bar>real_of_int m\<bar>"
      by linarith
    ultimately have "\<bar>fl (of_int n + of_int m) - (of_int n + of_int m)\<bar>
        \<le> 3 * (\<bar>real_of_int n\<bar> + \<bar>real_of_int m\<bar>) / 2 ^ 53"
      by simp
    then show ?thesis using sb by (simp add: nm tv_def dv_def)
  next
    case False
    have p: "py_add tot delta = Inr (FloatNum (fadd (rnd tv) (rnd dv)))"
      using False to_float64_ok [of tot] to_float64_ok [of delta] tb db
      by (cases tot; cases delta) (simp_all add: tv_def dv_def)
    define T D where "T = fl tv" and "D = fl dv"
    have eT: "\<bar>T - tv\<bar> \<le> \<bar>tv\<bar> / 2 ^ 53" and eD: "\<bar>D - dv\<bar> \<le> \<bar>dv\<bar> / 2 ^ 53"
      unfolding T_def D_def tv_def dv_def by (rule conv_err)+
    have eS: "\<bar>fl (T + D) - (T + D)\<bar> \<le> \<bar>T + D\<bar> / 2 ^ 53"
      unfolding T_def D_def by (intro fl_add_rel is_float_fl)
    have sm: "x / 2 ^ 53 \<le> x" if "0 \<le> x" for x :: real
      using that by (simp add: field_simps)
    have "\<bar>T\<bar> \<le> \<bar>tv\<bar> + \<bar>tv\<bar>"
      by (rule abs_near [OF order_trans [OF eT sm]]) simp_all
    moreover have "\<bar>D\<bar> \<le> \<bar>dv\<bar> + \<bar>dv\<bar>"
      by (rule abs_near [OF order_trans [OF eD sm]]) simp_all
    moreover have "\<bar>T + D\<bar> \<le> \<bar>T\<bar> + \<bar>D\<bar>" by (rule abs_triangle_ineq)
    ultimately have TD: "\<bar>T + D\<bar> \<le> 2 * (\<bar>tv\<bar> + \<bar>dv\<bar>)" by (rule sum_le_double)
    have "\<bar>fl (T + D) - (T + D)\<bar> \<le> 2 * (\<bar>tv\<bar> + \<bar>dv\<bar>) / 2 ^ 53"
      using eS TD by (simp add: divide_right_mono order_trans [OF eS])
    moreover have "\<bar>(T + D) - (tv + dv)\<bar> \<le> (\<bar>tv\<bar> + \<bar>dv\<bar>) / 2 ^ 53"
    proof -
      have "\<bar>(T + D) - (tv + dv)\<bar> \<le> \<bar>T - tv\<bar> + \<bar>D - dv\<bar>" by linarith
      also have "\<dots> \<le> \<bar>tv\<bar> / 2 ^ 53 + \<bar>dv\<bar> / 2 ^ 53" using eT eD by (rule add_mono)
      finally show ?thesis by (simp add: add_divide_distrib)
    qed
    ultimately have "\<bar>fl (T + D) - (tv + dv)\<bar>
        \<le> 2 * (\<bar>tv\<bar> + \<bar>dv\<bar>) / 2 ^ 53 + (\<bar>tv\<bar> + \<bar>dv\<bar>) / 2 ^ 53"
      by (rule abs_chain)
    then have e: "\<bar>fl (T + D) - (tv + dv)\<bar> \<le> 3 * (\<bar>tv\<bar> + \<bar>dv\<bar>) / 2 ^ 53"
      by (simp add: field_simps)
    have f: "is_float (2 powi 1023)" by (rule is_float_pow2) simp
    have Tb: "\<bar>T\<bar> \<le> 2 ^ 1000" and Db: "\<bar>D\<bar> \<le> 2 ^ 1000"
    proof -
      have g: "is_float (2 powi 1000)" by (rule is_float_pow2) simp
      have "fl tv \<le> 2 powi 1000" "- (2 powi 1000) \<le> fl tv"
        using t unfolding tv_def by (intro fl_le fl_ge g is_float_minus; simp)+
      then show "\<bar>T\<bar> \<le> 2 ^ 1000" by (simp add: T_def)
      have "fl dv \<le> 2 powi 1000" "- (2 powi 1000) \<le> fl dv"
        using d unfolding dv_def by (intro fl_le fl_ge g is_float_minus; simp)+
      then show "\<bar>D\<bar> \<le> 2 ^ 1000" by (simp add: D_def)
    qed
    have "\<bar>T + D\<bar> \<le> 2 powi 1023" using Tb Db big(2) by simp
    then have "fl (T + D) \<le> 2 powi 1023" "- (2 powi 1023) \<le> fl (T + D)"
      by (intro fl_le fl_ge f is_float_minus; simp)+
    then have "\<bar>fl (T + D)\<bar> \<le> 2 ^ 1023" by simp
    then show ?thesis using e by (simp add: p T_def D_def tv_def dv_def)
  qed
qed

text \<open>
  C5, amended: the two sides agree up to rounding. For two positions whose range
  \<open>calc_range\<close> returns (at most \<open>2 ^ 500\<close>) and all Python numbers \<open>tot\<close> and
  \<open>delta\<close>, integers or floats, of magnitude at most \<open>2 ^ 1000\<close>,
  \<open>calc_toa(tot + delta, \<dots>)\<close> and \<open>calc_toa(tot, \<dots>) + delta\<close> both return a float, and
  the two floats differ by at most \<open>(|tot| + |delta| + calc_range(\<dots>) / c) / 2 ^ 50\<close>.
\<close>

theorem calc_toa_shift_bound:
  "calc_range fused A B = Inr r \<and> val r \<le> 2 ^ 500 \<and>
   \<bar>num_val tot\<bar> \<le> 2 ^ 1000 \<and> \<bar>num_val delta\<bar> \<le> 2 ^ 1000 \<longrightarrow>
     (\<exists>s v w res. py_add tot delta = Inr s \<and>
        calc_toa fused s A B = Inr v \<and> calc_toa fused tot A B = Inr w \<and>
        py_add (FloatNum w) delta = Inr (FloatNum res) \<and>
        \<bar>val v - val res\<bar> \<le> (\<bar>num_val tot\<bar> + \<bar>num_val delta\<bar> + val (fdiv r c)) / 2 ^ 50)"
proof
  assume h: "calc_range fused A B = Inr r \<and> val r \<le> 2 ^ 500 \<and>
    \<bar>num_val tot\<bar> \<le> 2 ^ 1000 \<and> \<bar>num_val delta\<bar> \<le> 2 ^ 1000"
  then have t: "\<bar>num_val tot\<bar> \<le> 2 ^ 1000" and d: "\<bar>num_val delta\<bar> \<le> 2 ^ 1000"
    and r: "calc_range fused A B = Inr r" by simp_all
  have big: "(2::real) ^ 1000 \<le> 2 ^ 1023" by simp
  define q where "q = val (fdiv r c)"
  have q0: "0 \<le> q" unfolding q_def by (rule delay_nonneg [OF r])
  from py_add_value [OF t d] obtain s where s: "py_add tot delta = Inr s"
    and sb: "\<bar>num_val s\<bar> \<le> 2 ^ 1023"
    and e3: "\<bar>fl (num_val s) - (num_val tot + num_val delta)\<bar>
      \<le> 3 * (\<bar>num_val tot\<bar> + \<bar>num_val delta\<bar>) / 2 ^ 53" by blast
  have cs: "to_float64 s = Inr (rnd (num_val s))" by (rule to_float64_ok [OF sb])
  have ct: "to_float64 tot = Inr (rnd (num_val tot))"
    using t big by (intro to_float64_ok) linarith
  have cd: "to_float64 delta = Inr (rnd (num_val delta))"
    using d big by (intro to_float64_ok) linarith
  define v where "v = fadd (rnd (num_val s)) (fdiv r c)"
  define w where "w = fadd (rnd (num_val tot)) (fdiv r c)"
  define res where "res = fadd w (rnd (num_val delta))"
  have 1: "calc_toa fused s A B = Inr v" by (simp add: calc_toa_def r cs v_def)
  have 2: "calc_toa fused tot A B = Inr w" by (simp add: calc_toa_def r ct w_def)
  have 3: "py_add (FloatNum w) delta = Inr (FloatNum res)"
    using cd by (cases delta) (simp_all add: res_def)
  have e4: "\<bar>val v - (fl (num_val s) + q)\<bar> \<le> \<bar>fl (num_val s) + q\<bar> / 2 ^ 53"
    unfolding v_def q_def val_fadd val_rnd by (intro fl_add_rel is_float_fl is_float_val)
  have e5: "\<bar>val w - (fl (num_val tot) + q)\<bar> \<le> \<bar>fl (num_val tot) + q\<bar> / 2 ^ 53"
    unfolding w_def q_def val_fadd val_rnd by (intro fl_add_rel is_float_fl is_float_val)
  have e6: "\<bar>val res - (val w + fl (num_val delta))\<bar> \<le> \<bar>val w + fl (num_val delta)\<bar> / 2 ^ 53"
    unfolding res_def val_fadd val_rnd by (intro fl_add_rel is_float_fl is_float_val)
  have "\<bar>val v - val res\<bar> \<le> (\<bar>num_val tot\<bar> + \<bar>num_val delta\<bar> + q) / 2 ^ 50"
    by (rule shift_bound_core [OF q0 conv_err conv_err e3 e4 e5 e6])
  then show "\<exists>s v w res. py_add tot delta = Inr s \<and>
        calc_toa fused s A B = Inr v \<and> calc_toa fused tot A B = Inr w \<and>
        py_add (FloatNum w) delta = Inr (FloatNum res) \<and>
        \<bar>val v - val res\<bar> \<le> (\<bar>num_val tot\<bar> + \<bar>num_val delta\<bar> + val (fdiv r c)) / 2 ^ 50"
    using s 1 2 3 unfolding q_def by blast
qed

theorem calc_toa_shift_bound_witness:
  "val (rnd 299000000) \<le> 2 ^ 500 \<and>
   \<bar>num_val (FloatNum (rnd 9007199254740992))\<bar> \<le> 2 ^ 1000 \<and>
   \<bar>num_val (FloatNum (rnd (- 1)))\<bar> \<le> 2 ^ 1000 \<and>
   calc_range True (Int64Array [0, 0, 0]) (Int64Array [299000000, 0, 0]) = Inr (rnd 299000000) \<and>
   val (fdiv (rnd 299000000) c) = 1 \<and>
   \<bar>val (rnd 9007199254740992) - val (rnd 9007199254740991)\<bar>
     \<le> (\<bar>num_val (FloatNum (rnd 9007199254740992))\<bar> + \<bar>num_val (FloatNum (rnd (- 1)))\<bar> + 1) / 2 ^ 50"
proof -
  have a: "fl 9007199254740991 = 9007199254740991" using fl_of_int [of 9007199254740991] by simp
  have b: "fl 9007199254740992 = 9007199254740992" by (rule fl_float_id [OF is_float_2_53])
  have m: "fl (- 1) = - 1" "fl 1 = 1" "fl 299000000 = 299000000"
    using fl_of_int [of "- 1"] fl_of_int [of 1] fl_of_int [of 299000000] by simp_all
  have s: "fadd (rnd 9007199254740992) (rnd (- 1)) = rnd 9007199254740991"
    by (rule f64_eqI) (simp add: a b m)
  have big: "(9007199254740992::real) \<le> 2 ^ 1000" "(1::real) \<le> 2 ^ 1000"
    "(299000000::real) \<le> 2 ^ 500" by simp_all
  show ?thesis
    using calc_toa_shift_bound [of True "Int64Array [0, 0, 0]" "Int64Array [299000000, 0, 0]"
        "rnd 299000000" "FloatNum (rnd 9007199254740992)" "FloatNum (rnd (- 1))"] big
    by (simp add: toa_c range_c s a b m fl_tie)
qed

section \<open>Accuracy of calc\_range\<close>

lemma near_zero [simp]: "near k 0 0"
  by (simp add: near_def)

lemma near_add: "near k x y \<Longrightarrow> near k x' y' \<Longrightarrow> near k (x + x') (y + y')"
  by (simp add: near_def distrib_left add_mono)

lemma near_mono:
  assumes "near k x y" and "0 \<le> y" and "k \<le> k'"
  shows "near k' x y"
proof -
  have "(1 - 1 / 2 ^ 53 :: real) ^ k' \<le> (1 - 1 / 2 ^ 53) ^ k"
    using assms(3) by (intro power_decreasing) simp_all
  then have a: "(1 - 1 / 2 ^ 53) ^ k' * y \<le> (1 - 1 / 2 ^ 53) ^ k * y"
    using assms(2) by (rule mult_right_mono)
  have "(1 + 1 / 2 ^ 53 :: real) ^ k \<le> (1 + 1 / 2 ^ 53) ^ k'"
    using assms(3) by (intro power_increasing) simp_all
  then have b: "(1 + 1 / 2 ^ 53) ^ k * y \<le> (1 + 1 / 2 ^ 53) ^ k' * y"
    using assms(2) by (rule mult_right_mono)
  show ?thesis using assms(1) a b unfolding near_def by linarith
qed

lemma near_round:
  assumes x: "0 \<le> x" and e: "\<bar>z - x\<bar> \<le> x / 2 ^ 53" and n: "near k x y"
  shows "near (Suc k) z y"
proof -
  from e have "z - x \<le> x / 2 ^ 53" and "- (z - x) \<le> x / 2 ^ 53"
    by (simp_all only: abs_le_iff)
  then have lo: "(1 - 1 / 2 ^ 53) * x \<le> z" and hi: "z \<le> (1 + 1 / 2 ^ 53) * x"
    by (simp_all add: algebra_simps)
  have "(1 - 1 / 2 ^ 53) * ((1 - 1 / 2 ^ 53) ^ k * y) \<le> (1 - 1 / 2 ^ 53) * x"
    using n unfolding near_def by (intro mult_left_mono) simp_all
  moreover have "(1 + 1 / 2 ^ 53) * x \<le> (1 + 1 / 2 ^ 53) * ((1 + 1 / 2 ^ 53) ^ k * y)"
    using n unfolding near_def by (intro mult_left_mono) simp_all
  ultimately show ?thesis using lo hi unfolding near_def power_Suc mult.assoc by linarith
qed

lemma near_fl:
  assumes "0 \<le> x" and "normal_or_zero x" and "near k x y"
  shows "near (Suc k) (fl x) y"
proof -
  have "\<bar>fl x - x\<bar> \<le> \<bar>x\<bar> / 2 ^ 53"
    using assms(1,2) by (intro fl_rel) (simp add: normal_or_zero_def)
  then show ?thesis using assms(1,3) by (intro near_round [of x]) simp_all
qed

lemma near_fl_add:
  assumes "is_float a" and "is_float b" and "0 \<le> a + b" and "near k (a + b) y"
  shows "near (Suc k) (fl (a + b)) y"
proof -
  have "\<bar>fl (a + b) - (a + b)\<bar> \<le> \<bar>a + b\<bar> / 2 ^ 53" by (rule fl_add_rel [OF assms(1,2)])
  then show ?thesis using assms(3,4) by (intro near_round [of "a + b"]) simp_all
qed

lemma near_sq:
  assumes "\<bar>v - d\<bar> \<le> \<bar>d\<bar> / 2 ^ 53"
  shows "near 2 (v * v) (d * d)"
proof -
  define A B E where "A = \<bar>v\<bar>" and "B = \<bar>d\<bar>" and "E = \<bar>v - d\<bar>"
  have "A \<le> B + E" "B \<le> A + E" unfolding A_def B_def E_def by linarith+
  moreover have "E \<le> B / 2 ^ 53" using assms by (simp add: B_def E_def)
  ultimately have "(1 - 1 / 2 ^ 53) * B \<le> A" and "A \<le> (1 + 1 / 2 ^ 53) * B"
    by (simp_all add: algebra_simps)
  then have lo: "(1 - 1 / 2 ^ 53) * \<bar>d\<bar> \<le> \<bar>v\<bar>" and hi: "\<bar>v\<bar> \<le> (1 + 1 / 2 ^ 53) * \<bar>d\<bar>"
    by (simp_all only: A_def B_def)
  have p: "0 \<le> (1 - 1 / 2 ^ 53) * \<bar>d\<bar>" by simp
  have "((1 - 1 / 2 ^ 53) * \<bar>d\<bar>) * ((1 - 1 / 2 ^ 53) * \<bar>d\<bar>) \<le> \<bar>v\<bar> * \<bar>v\<bar>"
    by (rule mult_mono [OF lo lo _ p]) simp
  moreover have "\<bar>v\<bar> * \<bar>v\<bar> \<le> ((1 + 1 / 2 ^ 53) * \<bar>d\<bar>) * ((1 + 1 / 2 ^ 53) * \<bar>d\<bar>)"
    by (rule mult_mono [OF hi hi]) simp_all
  moreover have "\<bar>v\<bar> * \<bar>v\<bar> = v * v" by simp
  moreover have "(t * \<bar>d\<bar>) * (t * \<bar>d\<bar>) = t ^ 2 * (d * d)" for t :: real
  proof -
    have "(t * \<bar>d\<bar>) * (t * \<bar>d\<bar>) = t ^ 2 * (\<bar>d\<bar> * \<bar>d\<bar>)"
      by (simp add: power2_eq_square ac_simps)
    then show ?thesis by (simp only: abs_mult_self_eq)
  qed
  ultimately show ?thesis
    unfolding near_def by (simp only:)
qed

lemma near_sqrt:
  assumes "near (2 * k) x y" and "0 \<le> y"
  shows "near k (sqrt x) (sqrt y)"
proof -
  have g: "sqrt (t ^ (2 * k) * y) = t ^ k * sqrt y" if "0 \<le> t" for t :: real
    using that by (simp add: power_even_eq real_sqrt_mult)
  have a: "sqrt ((1 - 1 / 2 ^ 53) ^ (2 * k) * y) = (1 - 1 / 2 ^ 53) ^ k * sqrt y"
    by (rule g) simp
  have b: "sqrt ((1 + 1 / 2 ^ 53) ^ (2 * k) * y) = (1 + 1 / 2 ^ 53) ^ k * sqrt y"
    by (rule g) simp
  from assms(1) have "sqrt ((1 - 1 / 2 ^ 53) ^ (2 * k) * y) \<le> sqrt x"
    and "sqrt x \<le> sqrt ((1 + 1 / 2 ^ 53) ^ (2 * k) * y)"
    unfolding near_def by simp_all
  then show ?thesis unfolding near_def a b by simp
qed

lemma near_bound:
  assumes "near 5 r R" and "0 \<le> R"
  shows "\<bar>r - R\<bar> \<le> R / 2 ^ 50"
proof -
  have "(1 + 1 / 2 ^ 53 :: real) ^ 5 \<le> 1 + 1 / 2 ^ 50" by (simp add: numeral_eq_Suc)
  then have "(1 + 1 / 2 ^ 53) ^ 5 * R \<le> (1 + 1 / 2 ^ 50) * R"
    using assms(2) by (rule mult_right_mono)
  moreover have "(1 - 1 / 2 ^ 50 :: real) \<le> (1 - 1 / 2 ^ 53) ^ 5" by (simp add: numeral_eq_Suc)
  then have "(1 - 1 / 2 ^ 50) * R \<le> (1 - 1 / 2 ^ 53) ^ 5 * R"
    using assms(2) by (rule mult_right_mono)
  ultimately have "(1 - 1 / 2 ^ 50) * R \<le> r" "r \<le> (1 + 1 / 2 ^ 50) * R"
    using assms(1) unfolding near_def by linarith+
  then have "r - R \<le> R / 2 ^ 50" and "- (r - R) \<le> R / 2 ^ 50"
    by (simp_all add: algebra_simps)
  then show ?thesis by (simp only: abs_le_iff)
qed

lemma noz_sqrt:
  assumes "normal_or_zero x"
  shows "normal_or_zero (sqrt x)"
proof (cases "x = 0")
  case True
  then show ?thesis by (simp add: normal_or_zero_def)
next
  case False
  with assms have x: "2 powi (- 1022) \<le> x" by (simp add: normal_or_zero_def)
  have "((2::real) powi (- 511))\<^sup>2 = 2 powi (- 1022)"
    by (simp add: power_int_minus power2_eq_square field_simps)
  with x have "(2 powi (- 511))\<^sup>2 \<le> x" by simp
  then have "2 powi (- 511) \<le> sqrt x" by (rule real_le_rsqrt)
  moreover have "(2::real) powi (- 1022) \<le> 2 powi (- 511)"
    by (intro power_int_increasing) simp_all
  ultimately show ?thesis unfolding normal_or_zero_def by linarith
qed

lemma noz_fl:
  assumes "0 \<le> x" and "normal_or_zero x"
  shows "normal_or_zero (fl x)"
proof (cases "x = 0")
  case True
  then show ?thesis by (simp add: normal_or_zero_def)
next
  case False
  with assms(2) have "2 powi (- 1022) \<le> x" by (simp add: normal_or_zero_def)
  then have "2 powi (- 1022) \<le> fl x" by (intro fl_ge is_float_pow2) simp_all
  then show ?thesis by (simp add: normal_or_zero_def)
qed

lemma noz_add:
  assumes "0 \<le> x" and "0 \<le> y" and "normal_or_zero x" and "normal_or_zero y"
  shows "normal_or_zero (x + y)"
  using assms unfolding normal_or_zero_def by auto

lemma square_facts:
  assumes e: "\<bar>v - d\<bar> \<le> \<bar>d\<bar> / 2 ^ 53" and m: "d = 0 \<or> 2 powi (- 510) \<le> \<bar>d\<bar>"
  shows "near 2 (v * v) (d * d)" and "normal_or_zero (v * v)"
proof -
  show "near 2 (v * v) (d * d)" by (rule near_sq [OF e])
  show "normal_or_zero (v * v)"
  proof (cases "d = 0")
    case True
    with e have "v = 0" by simp
    then show ?thesis by (simp add: normal_or_zero_def)
  next
    case False
    with m have d: "2 powi (- 510) \<le> \<bar>d\<bar>" by simp
    define A B E where "A = \<bar>v\<bar>" and "B = \<bar>d\<bar>" and "E = \<bar>v - d\<bar>"
    have "B \<le> A + E" unfolding A_def B_def E_def by linarith
    moreover have "E \<le> B / 2 ^ 53" using e by (simp add: B_def E_def)
    moreover have "0 \<le> B" by (simp add: B_def)
    ultimately have "B / 2 \<le> A" by (simp add: field_simps)
    moreover have "(2::real) powi (- 511) = 2 powi (- 510) / 2"
      by (simp add: power_int_minus field_simps)
    ultimately have a: "2 powi (- 511) \<le> \<bar>v\<bar>" using d unfolding A_def B_def by linarith
    have "(2 powi (- 511)) * (2 powi (- 511)) \<le> \<bar>v\<bar> * \<bar>v\<bar>"
      by (rule mult_mono [OF a a]) simp_all
    moreover have "(2::real) powi (- 1022) \<le> (2 powi (- 511)) * (2 powi (- 511))"
      by (simp add: power_int_minus field_simps)
    ultimately have "2 powi (- 1022) \<le> v * v" by simp
    then show ?thesis by (simp add: normal_or_zero_def)
  qed
qed

lemma acc_step:
  fixes fused :: bool
  assumes a: "is_float a" "0 \<le> a" "normal_or_zero a" "near k a Ea" "0 \<le> Ea" "2 \<le> k"
    and p: "0 \<le> P" "normal_or_zero P" "near 2 P E" "0 \<le> E"
  defines "a' \<equiv> (if fused then fl (P + a) else fl (a + fl P))"
  shows "is_float a'" and "0 \<le> a'" and "normal_or_zero a'" and "near (Suc (Suc k)) a' (Ea + E)"
proof -
  show "is_float a'" by (simp add: a'_def is_float_fl)
  have pk: "near k P E" by (rule near_mono [OF p(3) p(4) a(6)])
  have f: "0 \<le> fl P" "normal_or_zero (fl P)" "near (Suc k) (fl P) E"
    using p pk by (simp_all add: fl_nonneg noz_fl near_fl)
  have ak: "near (Suc k) a Ea" by (rule near_mono [OF a(4) a(5)]) simp
  have s1: "near (Suc k) (a + P) (Ea + E)"
    by (rule near_add [OF ak near_mono [OF pk p(4)]]) simp
  have s2: "near (Suc k) (a + fl P) (Ea + E)" by (rule near_add [OF ak f(3)])
  have n1: "normal_or_zero (a + P)" by (rule noz_add [OF a(2) p(1) a(3) p(2)])
  have n2: "normal_or_zero (a + fl P)" by (rule noz_add [OF a(2) f(1) a(3) f(2)])
  have z1: "0 \<le> a + P" and z2: "0 \<le> a + fl P" using a(2) p(1) f(1) by simp_all
  show "0 \<le> a'" using z1 z2 by (simp add: a'_def fl_nonneg add.commute)
  show "normal_or_zero a'" using noz_fl [OF z1 n1] noz_fl [OF z2 n2]
    by (simp add: a'_def add.commute)
  show "near (Suc (Suc k)) a' (Ea + E)"
    using near_fl [OF z1 n1 s1] near_fl [OF z2 n2 s2] by (simp add: a'_def add.commute)
qed

lemma dot3_val:
  "val (dot fused [x, y, z] [x, y, z]) =
     (let s = (\<lambda>a P. if fused then fl (P + a) else fl (a + fl P))
      in s (s (s 0 (val x * val x)) (val y * val y)) (val z * val z))"
  by (simp add: dot_def Let_def)

lemma norm3_accuracy:
  assumes e: "\<bar>val v1 - d1\<bar> \<le> \<bar>d1\<bar> / 2 ^ 53" "\<bar>val v2 - d2\<bar> \<le> \<bar>d2\<bar> / 2 ^ 53"
      "\<bar>val v3 - d3\<bar> \<le> \<bar>d3\<bar> / 2 ^ 53"
    and m: "d1 = 0 \<or> 2 powi (- 510) \<le> \<bar>d1\<bar>" "d2 = 0 \<or> 2 powi (- 510) \<le> \<bar>d2\<bar>"
      "d3 = 0 \<or> 2 powi (- 510) \<le> \<bar>d3\<bar>"
  shows "\<bar>val (linalg_norm fused (Float64Array [v1, v2, v3])) - sqrt (d1\<^sup>2 + d2\<^sup>2 + d3\<^sup>2)\<bar>
    \<le> sqrt (d1\<^sup>2 + d2\<^sup>2 + d3\<^sup>2) / 2 ^ 50"
proof -
  define s where "s = (\<lambda>a P. if fused then fl (P + a) else fl (a + fl P))"
  define P1 P2 P3 where "P1 = val v1 * val v1" and "P2 = val v2 * val v2" and "P3 = val v3 * val v3"
  define a1 a2 a3 where "a1 = s 0 P1" and "a2 = s a1 P2" and "a3 = s a2 P3"
  have q1: "near 2 P1 (d1 * d1)" "normal_or_zero P1" "0 \<le> P1"
    unfolding P1_def using square_facts [OF e(1) m(1)] by simp_all
  have q2: "near 2 P2 (d2 * d2)" "normal_or_zero P2" "0 \<le> P2"
    unfolding P2_def using square_facts [OF e(2) m(2)] by simp_all
  have q3: "near 2 P3 (d3 * d3)" "normal_or_zero P3" "0 \<le> P3"
    unfolding P3_def using square_facts [OF e(3) m(3)] by simp_all
  have z: "is_float 0" "(0::real) \<le> 0" "normal_or_zero 0" "near 2 0 0"
    by (simp_all add: normal_or_zero_def)
  have n1: "is_float a1" "0 \<le> a1" "normal_or_zero a1" "near 4 a1 (0 + d1 * d1)"
    unfolding a1_def s_def
    using acc_step [OF z(1) z(2) z(3) z(4) z(2) order_refl q1(3) q1(2) q1(1), of fused]
    by (simp_all add: numeral_eq_Suc)
  have n2: "is_float a2" "0 \<le> a2" "normal_or_zero a2" "near 6 a2 (0 + d1 * d1 + d2 * d2)"
    unfolding a2_def s_def
    using acc_step [OF n1(1) n1(2) n1(3) n1(4) _ _ q2(3) q2(2) q2(1), of fused]
    by (simp_all add: numeral_eq_Suc)
  have n3: "is_float a3" "0 \<le> a3" "normal_or_zero a3"
      "near 8 a3 (0 + d1 * d1 + d2 * d2 + d3 * d3)"
    unfolding a3_def s_def
    using acc_step [OF n2(1) n2(2) n2(3) n2(4) _ _ q3(3) q3(2) q3(1), of fused]
    by (simp_all add: numeral_eq_Suc)
  define S where "S = d1\<^sup>2 + d2\<^sup>2 + d3\<^sup>2"
  have S0: "0 \<le> S" by (simp add: S_def)
  have n: "near (2 * 4) a3 S" using n3(4) by (simp add: S_def power2_eq_square)
  have r: "near 4 (sqrt a3) (sqrt S)" by (rule near_sqrt [OF n S0])
  have "near 5 (fl (sqrt a3)) (sqrt S)"
    using near_fl [OF _ noz_sqrt [OF n3(3)] r] n3(2) by (simp add: numeral_eq_Suc)
  then have "\<bar>fl (sqrt a3) - sqrt S\<bar> \<le> sqrt S / 2 ^ 50"
    by (rule near_bound) (simp add: S0)
  moreover have "val (linalg_norm fused (Float64Array [v1, v2, v3])) = fl (sqrt a3)"
    by (simp add: linalg_norm_def dot3_val Let_def a3_def a2_def a1_def s_def
        P1_def P2_def P3_def)
  ultimately show ?thesis by (simp only: S_def)
qed

lemma sint_sub_no_wrap:
  assumes "- (2 ^ 63) \<le> sint x - sint y" and "sint x - sint y < 2 ^ 63"
  shows "sint (x - y) = sint x - sint (y :: 64 word)"
proof -
  have "sint (x - y) = signed_take_bit 63 (sint x - sint y)"
    by (simp add: sint_word_ariths)
  also have "\<dots> = sint x - sint y"
    using assms by (simp add: signed_take_bit_int_eq_self)
  finally show ?thesis .
qed

lemma int_diff_facts:
  assumes "- (2 ^ 63) \<le> sint x - sint y" and "sint x - sint y < 2 ^ 63"
  defines "d \<equiv> real_of_int (sint x - sint (y :: 64 word))"
  shows "\<bar>val (int64_to_float (x - y)) - d\<bar> \<le> \<bar>d\<bar> / 2 ^ 53"
    and "d = 0 \<or> 2 powi (- 510) \<le> \<bar>d\<bar>"
proof -
  have v: "val (int64_to_float (x - y)) = fl d"
    unfolding d_def int64_to_float_def val_rnd sint_sub_no_wrap [OF assms(1,2)] ..
  show "\<bar>val (int64_to_float (x - y)) - d\<bar> \<le> \<bar>d\<bar> / 2 ^ 53"
    unfolding v d_def using conv_err [of "IntNum (sint x - sint y)"] by simp
  have "sint x - sint y = 0 \<or> 1 \<le> \<bar>sint x - sint y\<bar>" by linarith
  then have "d = 0 \<or> 1 \<le> \<bar>d\<bar>"
    unfolding d_def by (metis of_int_0 of_int_1_le_iff of_int_abs)
  moreover have "(2::real) powi (- 510) \<le> 1" by (simp add: power_int_minus field_simps)
  ultimately show "d = 0 \<or> 2 powi (- 510) \<le> \<bar>d\<bar>" by linarith
qed

text \<open>
  C2, amended: \<open>calc_range(A, B)\<close> returns the Euclidean norm of \<open>A - B\<close> up to rounding,
  with a relative error of at most \<open>2 powi (- 50)\<close>, for two \<open>float64\<close> positions of three
  coordinates whose nonzero coordinate differences have magnitudes between
  \<open>2 powi (- 510)\<close> and \<open>2 powi 510\<close> (their squares neither underflow nor overflow), and
  for two \<open>int64\<close> positions of three coordinates whose coordinate differences lie in
  the \<open>int64\<close> range.
\<close>

theorem calc_range_accuracy:
  "((val a1 - val b1 = 0 \<or>
       2 powi (- 510) \<le> \<bar>val a1 - val b1\<bar> \<and> \<bar>val a1 - val b1\<bar> \<le> 2 powi 510) \<and>
    (val a2 - val b2 = 0 \<or>
       2 powi (- 510) \<le> \<bar>val a2 - val b2\<bar> \<and> \<bar>val a2 - val b2\<bar> \<le> 2 powi 510) \<and>
    (val a3 - val b3 = 0 \<or>
       2 powi (- 510) \<le> \<bar>val a3 - val b3\<bar> \<and> \<bar>val a3 - val b3\<bar> \<le> 2 powi 510) \<longrightarrow>
    (\<exists>r. calc_range fused (Float64Array [a1, a2, a3]) (Float64Array [b1, b2, b3]) = Inr r \<and>
       \<bar>val r - sqrt ((val a1 - val b1)\<^sup>2 + (val a2 - val b2)\<^sup>2 + (val a3 - val b3)\<^sup>2)\<bar>
         \<le> sqrt ((val a1 - val b1)\<^sup>2 + (val a2 - val b2)\<^sup>2 + (val a3 - val b3)\<^sup>2) / 2 ^ 50)) \<and>
   ((- (2 ^ 63) \<le> sint x1 - sint y1 \<and> sint x1 - sint y1 < 2 ^ 63) \<and>
    (- (2 ^ 63) \<le> sint x2 - sint y2 \<and> sint x2 - sint y2 < 2 ^ 63) \<and>
    (- (2 ^ 63) \<le> sint x3 - sint y3 \<and> sint x3 - sint y3 < 2 ^ 63) \<longrightarrow>
    (\<exists>r. calc_range fused (Int64Array [x1, x2, x3]) (Int64Array [y1, y2, y3]) = Inr r \<and>
       \<bar>val r - sqrt (of_int ((sint x1 - sint y1)\<^sup>2 + (sint x2 - sint y2)\<^sup>2
            + (sint x3 - sint y3)\<^sup>2))\<bar>
         \<le> sqrt (of_int ((sint x1 - sint y1)\<^sup>2 + (sint x2 - sint y2)\<^sup>2
            + (sint x3 - sint y3)\<^sup>2)) / 2 ^ 50))"
proof (intro conjI impI)
  assume h: "(val a1 - val b1 = 0 \<or>
       2 powi (- 510) \<le> \<bar>val a1 - val b1\<bar> \<and> \<bar>val a1 - val b1\<bar> \<le> 2 powi 510) \<and>
    (val a2 - val b2 = 0 \<or>
       2 powi (- 510) \<le> \<bar>val a2 - val b2\<bar> \<and> \<bar>val a2 - val b2\<bar> \<le> 2 powi 510) \<and>
    (val a3 - val b3 = 0 \<or>
       2 powi (- 510) \<le> \<bar>val a3 - val b3\<bar> \<and> \<bar>val a3 - val b3\<bar> \<le> 2 powi 510)"
  have e: "\<bar>val (fsub a b) - (val a - val b)\<bar> \<le> \<bar>val a - val b\<bar> / 2 ^ 53" for a b
    unfolding val_fsub by (intro fl_sub_rel is_float_val)
  from h have m: "val a1 - val b1 = 0 \<or> 2 powi (- 510) \<le> \<bar>val a1 - val b1\<bar>"
    "val a2 - val b2 = 0 \<or> 2 powi (- 510) \<le> \<bar>val a2 - val b2\<bar>"
    "val a3 - val b3 = 0 \<or> 2 powi (- 510) \<le> \<bar>val a3 - val b3\<bar>" by blast+
  show "\<exists>r. calc_range fused (Float64Array [a1, a2, a3]) (Float64Array [b1, b2, b3]) = Inr r \<and>
       \<bar>val r - sqrt ((val a1 - val b1)\<^sup>2 + (val a2 - val b2)\<^sup>2 + (val a3 - val b3)\<^sup>2)\<bar>
         \<le> sqrt ((val a1 - val b1)\<^sup>2 + (val a2 - val b2)\<^sup>2 + (val a3 - val b3)\<^sup>2) / 2 ^ 50"
    using norm3_accuracy [OF e e e m, of fused] by (simp only: calc_range_float3) blast
next
  assume h: "(- (2 ^ 63) \<le> sint x1 - sint y1 \<and> sint x1 - sint y1 < 2 ^ 63) \<and>
    (- (2 ^ 63) \<le> sint x2 - sint y2 \<and> sint x2 - sint y2 < 2 ^ 63) \<and>
    (- (2 ^ 63) \<le> sint x3 - sint y3 \<and> sint x3 - sint y3 < 2 ^ 63)"
  then have h1: "- (2 ^ 63) \<le> sint x1 - sint y1" "sint x1 - sint y1 < 2 ^ 63"
    and h2: "- (2 ^ 63) \<le> sint x2 - sint y2" "sint x2 - sint y2 < 2 ^ 63"
    and h3: "- (2 ^ 63) \<le> sint x3 - sint y3" "sint x3 - sint y3 < 2 ^ 63" by blast+
  have n: "linalg_norm fused (Int64Array [x1 - y1, x2 - y2, x3 - y3])
      = linalg_norm fused (Float64Array [int64_to_float (x1 - y1), int64_to_float (x2 - y2),
          int64_to_float (x3 - y3)])"
    by (simp add: linalg_norm_def)
  have s: "real_of_int ((sint x1 - sint y1)\<^sup>2 + (sint x2 - sint y2)\<^sup>2 + (sint x3 - sint y3)\<^sup>2)
      = (real_of_int (sint x1 - sint y1))\<^sup>2 + (real_of_int (sint x2 - sint y2))\<^sup>2
        + (real_of_int (sint x3 - sint y3))\<^sup>2"
    by (simp only: of_int_add of_int_power)
  show "\<exists>r. calc_range fused (Int64Array [x1, x2, x3]) (Int64Array [y1, y2, y3]) = Inr r \<and>
       \<bar>val r - sqrt (of_int ((sint x1 - sint y1)\<^sup>2 + (sint x2 - sint y2)\<^sup>2
            + (sint x3 - sint y3)\<^sup>2))\<bar>
         \<le> sqrt (of_int ((sint x1 - sint y1)\<^sup>2 + (sint x2 - sint y2)\<^sup>2
            + (sint x3 - sint y3)\<^sup>2)) / 2 ^ 50"
    using norm3_accuracy [OF int_diff_facts(1) [OF h1] int_diff_facts(1) [OF h2]
        int_diff_facts(1) [OF h3] int_diff_facts(2) [OF h1] int_diff_facts(2) [OF h2]
        int_diff_facts(2) [OF h3], of fused]
    by (simp only: calc_range_int3 n s) blast
qed

lemma fl_tiny:
  assumes "\<bar>x\<bar> \<le> 2 powi (- 1076)"
  shows "fl x = 0"
proof (cases "x = 0")
  case True
  then show ?thesis by simp
next
  case False
  have lt: "(2::real) powi (- 1076) < 2 powi (- 1022)"
    by (intro power_int_strict_increasing) simp_all
  have e: "expo x = - 1074"
  proof (rule ccontr)
    assume "expo x \<noteq> - 1074"
    then have g: "- 1074 < expo x" using expo_ge [of x] by linarith
    then have "- 1022 \<le> expo x + 52" by simp
    then have "(2::real) powi (- 1022) \<le> 2 powi (expo x + 52)"
      by (intro power_int_increasing) simp_all
    with expo_lower [OF False g] assms lt show False by linarith
  qed
  have "(2::real) powi (- 1076) = 2 powi (- 1074) / 4" by (simp add: power_int_minus field_simps)
  then have "\<bar>x\<bar> \<le> 2 powi (- 1074) / 4" using assms by simp
  then have "\<bar>x\<bar> / 2 powi (- 1074) \<le> 1 / 4"
    by (simp add: field_simps)
  then have b: "\<bar>x / 2 powi (- 1074)\<bar> \<le> 1 / 4" by (simp add: abs_divide)
  define y where "y = x / 2 powi (- 1074)"
  have lo: "- (1 / 4) \<le> y" and hi: "y \<le> 1 / 4"
    using b unfolding y_def by (simp_all only: abs_le_iff) linarith+
  have "rne y = 0"
  proof (cases "0 \<le> y")
    case True
    with hi have "\<lfloor>y\<rfloor> = 0" by (intro floor_unique) simp_all
    then show ?thesis using hi by (simp add: rne_def)
  next
    case False
    with lo have "\<lfloor>y\<rfloor> = - 1" by (intro floor_unique) simp_all
    then show ?thesis using lo by (simp add: rne_def)
  qed
  then show ?thesis by (simp add: fl_def e y_def)
qed

lemma range_wrap:
  "calc_range fused (Int64Array [6917529027641081856, 0, 0])
     (Int64Array [- 4611686018427387904, 0, 0]) = Inr (rnd 6917529027641081856)"
proof -
  have w: "(6917529027641081856 :: 64 word) - (- 4611686018427387904) = 11529215046068469760"
    by simp
  have "is_float (of_int (- 3) * 2 powi 61)"
    unfolding is_float_def by (rule exI [of _ "- 3"], rule exI [of _ 61]) simp
  moreover have "is_float (of_int 9 * 2 powi 122)"
    unfolding is_float_def by (rule exI [of _ 9], rule exI [of _ 122]) simp
  ultimately have f: "is_float (of_int (- 3) * 2 powi 61)" "is_float (of_int 9 * 2 powi 122)"
    by blast+
  have s: "sint (11529215046068469760 :: 64 word) = - 6917529027641081856" by simp
  have v: "val (int64_to_float 11529215046068469760) = - 6917529027641081856"
    using fl_float_id [OF f(1)] by (simp add: int64_to_float_def s del: of_int_sint)
  have sq: "is_float 47852207848256971424537054170092404736" using f(2) by simp
  have "sqrt ((6917529027641081856::real)\<^sup>2) = \<bar>6917529027641081856\<bar>" by (rule real_sqrt_abs)
  then have q: "sqrt 47852207848256971424537054170092404736 = 6917529027641081856" by simp
  have "val (dot fused [int64_to_float 11529215046068469760, int64_to_float 0, int64_to_float 0]
      [int64_to_float 11529215046068469760, int64_to_float 0, int64_to_float 0])
      = 47852207848256971424537054170092404736"
    using dot3_exact [of "int64_to_float 11529215046068469760" "int64_to_float 0"
        "int64_to_float 0" fused] val_int64_small [of 0]
    by (simp add: v sq)
  then show ?thesis
    by (simp add: calc_range_int3 linalg_norm_def fsqrt_def q w)
qed

lemma range_underflow:
  assumes "is_float h" and "\<bar>h * h\<bar> \<le> 2 powi (- 1076)"
  shows "calc_range fused (Float64Array [rnd h, rnd 0, rnd 0])
     (Float64Array [rnd 0, rnd 0, rnd 0]) = Inr (rnd 0)"
proof -
  have p: "fl h = h" by (rule fl_float_id [OF assms(1)])
  have t: "fl (h * h) = 0" by (rule fl_tiny [OF assms(2)])
  have "val (dot fused [fsub (rnd h) (rnd 0), fsub (rnd 0) (rnd 0), fsub (rnd 0) (rnd 0)]
      [fsub (rnd h) (rnd 0), fsub (rnd 0) (rnd 0), fsub (rnd 0) (rnd 0)]) = 0"
    by (simp add: dot3_val Let_def p t)
  then have "linalg_norm fused (Float64Array [fsub (rnd h) (rnd 0),
      fsub (rnd 0) (rnd 0), fsub (rnd 0) (rnd 0)]) = rnd 0"
    by (intro f64_eqI) (simp add: linalg_norm_def)
  then show ?thesis by (simp only: calc_range_float3)
qed

lemma range_unit:
  "calc_range fused (Float64Array [rnd 1, rnd 1, rnd 0]) (Float64Array [rnd 0, rnd 0, rnd 0])
     = Inr (rnd (sqrt 2))"
proof -
  have e: "fl 1 = 1" "fl 2 = 2" using fl_of_int [of 1] fl_of_int [of 2] by simp_all
  have "val (dot fused [fsub (rnd 1) (rnd 0), fsub (rnd 1) (rnd 0), fsub (rnd 0) (rnd 0)]
      [fsub (rnd 1) (rnd 0), fsub (rnd 1) (rnd 0), fsub (rnd 0) (rnd 0)]) = 2"
    by (simp add: dot3_val Let_def e)
  then have "linalg_norm fused (Float64Array [fsub (rnd 1) (rnd 0), fsub (rnd 1) (rnd 0),
      fsub (rnd 0) (rnd 0)]) = rnd (sqrt 2)"
    by (intro f64_eqI) (simp add: linalg_norm_def)
  then show ?thesis by (simp only: calc_range_float3)
qed

lemma fl_sqrt2_inexact: "fl (sqrt 2) \<noteq> sqrt 2"
proof
  assume eq: "fl (sqrt 2) = sqrt 2"
  have "sqrt 2 < 2" by (rule real_less_lsqrt) simp_all
  moreover have "1 \<le> sqrt 2" by simp
  ultimately have e: "expo (sqrt 2) = - 52" by (intro expo_eqI) simp_all
  define n where "n = rne (sqrt 2 / 2 powi (- 52))"
  have "sqrt 2 = of_int n * 2 powi (- 52)"
    using eq unfolding fl_def e n_def by simp
  then have "sqrt 2 * 2 ^ 52 = of_int n" by (simp add: power_int_minus field_simps)
  then have "(sqrt 2 * 2 ^ 52)\<^sup>2 = (real_of_int n)\<^sup>2" by simp
  then have "real_of_int (n\<^sup>2) = real_of_int (2 ^ 105)"
    by (simp add: power_mult_distrib)
  then have n2: "n\<^sup>2 = 2 ^ 105" by (simp only: of_int_eq_iff)
  have "(6369051672525772 :: int)\<^sup>2 < \<bar>n\<bar>\<^sup>2" "\<bar>n\<bar>\<^sup>2 < (6369051672525773 :: int)\<^sup>2"
    using n2 by simp_all
  then have "6369051672525772 < \<bar>n\<bar>" "\<bar>n\<bar> < 6369051672525773"
    by (auto intro: power2_less_imp_less)
  then show False by linarith
qed

text \<open>
  C2, as stated, fails in three ways. On \<open>int64\<close> rows the difference wraps around: for
  \<open>(3 * 2 ^ 61, 0, 0)\<close> and \<open>(- 2 ^ 62, 0, 0)\<close>, at distance \<open>5 * 2 ^ 61\<close>, \<open>calc_range\<close>
  returns \<open>3 * 2 ^ 61\<close>. A square below the binary64 range underflows: for the floats
  \<open>(2 powi (- 600), 0, 0)\<close> and the origin, \<open>calc_range\<close> returns 0. And the result is
  rounded: for \<open>(1, 1, 0)\<close> and the origin it is a binary64 number, which \<open>sqrt 2\<close> is not.
\<close>

theorem calc_range_counterexample:
  "calc_range True (Int64Array [6917529027641081856, 0, 0])
     (Int64Array [- 4611686018427387904, 0, 0]) = Inr (rnd 6917529027641081856) \<and>
   calc_range False (Int64Array [6917529027641081856, 0, 0])
     (Int64Array [- 4611686018427387904, 0, 0]) = Inr (rnd 6917529027641081856) \<and>
   val (rnd 6917529027641081856) = 6917529027641081856 \<and>
   sqrt ((6917529027641081856 - (- 4611686018427387904))\<^sup>2 + (0 - 0)\<^sup>2 + (0 - 0)\<^sup>2)
     = (11529215046068469760 :: real) \<and>
   calc_range True (Float64Array [rnd (2 powi (- 600)), rnd 0, rnd 0])
     (Float64Array [rnd 0, rnd 0, rnd 0]) = Inr (rnd 0) \<and>
   calc_range False (Float64Array [rnd (2 powi (- 600)), rnd 0, rnd 0])
     (Float64Array [rnd 0, rnd 0, rnd 0]) = Inr (rnd 0) \<and>
   val (rnd 0) = 0 \<and>
   sqrt ((val (rnd (2 powi (- 600))) - val (rnd 0))\<^sup>2 + (val (rnd 0) - val (rnd 0))\<^sup>2
     + (val (rnd 0) - val (rnd 0))\<^sup>2) = 2 powi (- 600) \<and>
   calc_range True (Float64Array [rnd 1, rnd 1, rnd 0]) (Float64Array [rnd 0, rnd 0, rnd 0])
     = Inr (rnd (sqrt 2)) \<and>
   calc_range False (Float64Array [rnd 1, rnd 1, rnd 0]) (Float64Array [rnd 0, rnd 0, rnd 0])
     = Inr (rnd (sqrt 2)) \<and>
   sqrt ((val (rnd 1) - val (rnd 0))\<^sup>2 + (val (rnd 1) - val (rnd 0))\<^sup>2
     + (val (rnd 0) - val (rnd 0))\<^sup>2) = sqrt 2 \<and>
   val (rnd (sqrt 2)) \<noteq> sqrt 2"
proof -
  have "is_float (of_int 3 * 2 powi 61)"
    unfolding is_float_def by (rule exI [of _ 3], rule exI [of _ 61]) simp
  then have a: "fl 6917529027641081856 = 6917529027641081856"
    using fl_float_id [of "of_int 3 * 2 powi 61"] by simp
  have "sqrt ((11529215046068469760::real)\<^sup>2) = \<bar>11529215046068469760\<bar>" by (rule real_sqrt_abs)
  then have b: "sqrt ((6917529027641081856 - (- 4611686018427387904))\<^sup>2 + (0 - 0)\<^sup>2 + (0 - 0)\<^sup>2)
     = (11529215046068469760 :: real)" by simp
  have h: "is_float (2 powi (- 600))" by (rule is_float_pow2) simp
  have "(2::real) powi (- 600) * 2 powi (- 600) = 2 powi (- 1200)"
    by (simp flip: power_int_add)
  moreover have "(2::real) powi (- 1200) \<le> 2 powi (- 1076)"
    by (intro power_int_increasing) simp_all
  ultimately have t: "\<bar>2 powi (- 600) * 2 powi (- 600) :: real\<bar> \<le> 2 powi (- 1076)" by simp
  have u: "calc_range fused (Float64Array [rnd (2 powi (- 600)), rnd 0, rnd 0])
     (Float64Array [rnd 0, rnd 0, rnd 0]) = Inr (rnd 0)" for fused
    by (rule range_underflow [OF h t])
  have "sqrt (((2::real) powi (- 600))\<^sup>2) = \<bar>2 powi (- 600)\<bar>" by (rule real_sqrt_abs)
  then have d: "sqrt ((val (rnd (2 powi (- 600))) - val (rnd 0))\<^sup>2 + (val (rnd 0) - val (rnd 0))\<^sup>2
     + (val (rnd 0) - val (rnd 0))\<^sup>2) = 2 powi (- 600)"
    using fl_float_id [OF h] by simp
  have e: "fl 1 = 1" using fl_of_int [of 1] by simp
  have g: "sqrt ((val (rnd 1) - val (rnd 0))\<^sup>2 + (val (rnd 1) - val (rnd 0))\<^sup>2
     + (val (rnd 0) - val (rnd 0))\<^sup>2) = sqrt 2" by (simp add: e)
  have v: "val (rnd 6917529027641081856) = 6917529027641081856" "val (rnd 0) = 0"
    "val (rnd (sqrt 2)) \<noteq> sqrt 2"
    using a fl_sqrt2_inexact by simp_all
  from range_wrap [of True] range_wrap [of False] v(1) b u [of True] u [of False] v(2) d
    range_unit [of True] range_unit [of False] g v(3)
  show ?thesis by blast
qed

theorem calc_range_accuracy_witness:
  "(val (rnd 1) - val (rnd 0) = 0 \<or>
      2 powi (- 510) \<le> \<bar>val (rnd 1) - val (rnd 0)\<bar> \<and> \<bar>val (rnd 1) - val (rnd 0)\<bar> \<le> 2 powi 510) \<and>
   (val (rnd 0) - val (rnd 0) = 0 \<or>
      2 powi (- 510) \<le> \<bar>val (rnd 0) - val (rnd 0)\<bar> \<and> \<bar>val (rnd 0) - val (rnd 0)\<bar> \<le> 2 powi 510) \<and>
   calc_range True (Float64Array [rnd 1, rnd 1, rnd 0]) (Float64Array [rnd 0, rnd 0, rnd 0])
     = Inr (rnd (sqrt 2)) \<and>
   \<bar>val (rnd (sqrt 2)) - sqrt 2\<bar> \<le> sqrt 2 / 2 ^ 50 \<and>
   - (2 ^ 63) \<le> sint (1 :: 64 word) - sint (50 :: 64 word) \<and>
   sint (1 :: 64 word) - sint (50 :: 64 word) < 2 ^ 63 \<and>
   - (2 ^ 63) \<le> sint (0 :: 64 word) - sint (25 :: 64 word) \<and>
   sint (0 :: 64 word) - sint (25 :: 64 word) < 2 ^ 63 \<and>
   calc_range True (Int64Array [1, 1, 0]) (Int64Array [50, 50, 25]) = Inr (rnd (sqrt 5427)) \<and>
   \<bar>val (rnd (sqrt 5427)) - sqrt 5427\<bar> \<le> sqrt 5427 / 2 ^ 50"
proof -
  have e: "fl 1 = 1" using fl_of_int [of 1] by simp
  have p: "(2::real) powi (- 510) \<le> 1" "(1::real) \<le> 2 powi 510"
    by (simp_all add: power_int_minus field_simps)
  have s: "sint (1 :: 64 word) = 1" "sint (50 :: 64 word) = 50" "sint (25 :: 64 word) = 25"
    "sint (0 :: 64 word) = 0" by simp_all
  show ?thesis
    using calc_range_accuracy [of "rnd 1" "rnd 0" "rnd 1" "rnd 0" "rnd 0" "rnd 0" True
        1 50 1 50 0 25] p
    by (simp add: range_unit range1 e s)
qed

section \<open>Properties of the emitter classes\<close>

lemma exec_extends: "exec s h = Inr h' \<Longrightarrow> \<exists>ob. h' = h @ [ob]"
  by (cases s) (auto split: sum.splits)

lemma run_extends: "run ss h = Inr h' \<Longrightarrow> \<exists>obs. h' = h @ obs"
proof (induction ss arbitrary: h)
  case Nil
  then show ?case by simp
next
  case (Cons s ss)
  from Cons.prems obtain h1 where e: "exec s h = Inr h1" and r: "run ss h1 = Inr h'"
    by (auto split: sum.splits)
  from exec_extends [OF e] obtain ob where "h1 = h @ [ob]" ..
  moreover from Cons.IH [OF r] obtain obs where "h' = h1 @ obs" ..
  ultimately show ?case by simp
qed

lemma run_keeps_object:
  assumes "run ss h = Inr h'" and "a < length h"
  shows "h' ! a = h ! a"
proof -
  from run_extends [OF assms(1)] obtain obs where "h' = h @ obs" ..
  with assms(2) show ?thesis by (simp add: nth_append)
qed

text \<open>
  C7: \<open>emitter()\<close> called with no argument succeeds, and the object it yields has
  \<open>pos\<close> equal to the integer 0 and \<open>vel\<close> equal to the integer 0.
\<close>

theorem emitter_defaults:
  "\<exists>ob. emitter [] = Inr ob \<and> pos ob = PyInt 0 \<and> vel ob = PyInt 0"
  by simp

text \<open>
  C4: for every value \<open>P\<close>, \<open>stat_emitter(P)\<close> yields an object whose \<open>vel\<close> is 0, and
  that object, allocated at the next free address of any heap, is still the same (so its
  \<open>vel\<close> is still 0) after any sequence of operations of the repository that runs
  without error.
\<close>

theorem stat_emitter_vel_zero:
  "\<exists>ob. stat_emitter [P] = Inr ob \<and> vel ob = PyInt 0 \<and> pos ob = P \<and>
     (\<forall>ss h h'. run ss (h @ [ob]) = Inr h' \<longrightarrow>
        h' ! length h = ob \<and> vel (h' ! length h) = PyInt 0)"
proof -
  let ?ob = "\<lparr>cls = StatEmitter, pos = P, vel = PyInt 0\<rparr>"
  have "h' ! length h = ?ob" if "run ss (h @ [?ob]) = Inr h'" for ss h h'
    using run_keeps_object [OF that, of "length h"] by simp
  then show ?thesis by simp
qed

theorem stat_emitter_vel_zero_witness:
  "\<exists>ob. stat_emitter [PyArray [50, 50, 25]] = Inr ob \<and> vel ob = PyInt 0 \<and>
     run [New_emitter [], New_stat_emitter [PyInt 7]] ([] @ [ob])
       = Inr [ob, \<lparr>cls = Emitter, pos = PyInt 0, vel = PyInt 0\<rparr>,
              \<lparr>cls = StatEmitter, pos = PyInt 7, vel = PyInt 0\<rparr>] \<and>
     [ob, \<lparr>cls = Emitter, pos = PyInt 0, vel = PyInt 0\<rparr>,
              \<lparr>cls = StatEmitter, pos = PyInt 7, vel = PyInt 0\<rparr>] ! length ([] :: heap) = ob"
  using stat_emitter_vel_zero [of "PyArray [50, 50, 25]"] by simp

end
